theory Spec2Isabelle
  imports Main
begin

section \<open>Data model (tetris.h)\<close>

text \<open>
  The C sources \<^verbatim>\<open>tetris.h\<close> and \<^verbatim>\<open>tetris.c\<close> are embedded as HOL functions.
  C \<^verbatim>\<open>int\<close> values are modelled as \<^typ>\<open>int\<close>. The one sum of the program that
  can leave the 32-bit range is \<^verbatim>\<open>score += newScore\<close> in \<^verbatim>\<open>updateInfo\<close>: the score
  only grows during a game, and the compiled code wraps it around; the wrap is
  written out there with \<open>wrap32\<close>. Every other sum of the program is far from
  the bounds of its type: coordinates are moved by one from positions in or next
  to the field, level and speed are computed from a 32-bit score, and the timer
  difference is computed in the types of \<^verbatim>\<open>struct timespec\<close> from two clock
  readings. C division and remainder truncate towards zero and are modelled by
  \<open>c_div\<close> and \<open>c_mod\<close>.
\<close>

abbreviation FIELD_HEIGHT :: int where "FIELD_HEIGHT \<equiv> 20"
abbreviation FIELD_WIDTH :: int where "FIELD_WIDTH \<equiv> 10"
abbreviation BLOCK :: nat where "BLOCK \<equiv> 4"

definition c_div :: "int \<Rightarrow> int \<Rightarrow> int" where
  "c_div a b = sgn a * sgn b * (\<bar>a\<bar> div \<bar>b\<bar>)"

definition c_mod :: "int \<Rightarrow> int \<Rightarrow> int" where
  "c_mod a b = a - b * c_div a b"

text \<open>The value a 32-bit two's complement \<^verbatim>\<open>int\<close> holds after a sum \<open>x\<close> is stored in it.\<close>

definition wrap32 :: "int \<Rightarrow> int" where
  "wrap32 x = (x + 2147483648) mod 4294967296 - 2147483648"

datatype UserAction_t = Start | Pause | Terminate | Left | Right | Up | Down | Action

datatype Status_game =
  Start_t | Spawn | Moving | Shifting | Pause_t | Attaching | Terminate_t | GameOver

type_synonym matrix = "int list list"

text \<open>\<^verbatim>\<open>struct GameInfo_t\<close>; the member \<^verbatim>\<open>next\<close> is written \<open>next'\<close>.\<close>

record GameInfo_t =
  field :: matrix
  next' :: matrix
  score :: int
  high_score :: int
  level :: int
  speed :: int
  pause :: int

record Piece =
  shape :: matrix
  posX :: int
  posY :: int
  type :: int
  rotation :: int

text \<open>\<^verbatim>\<open>struct timespec\<close> as the pair \<open>(tv_sec, tv_nsec)\<close>.\<close>

type_synonym timespec = "int \<times> int"

text \<open>
  \<^verbatim>\<open>struct Params_t\<close>. The pointer \<^verbatim>\<open>game_info\<close> always points to the one static
  \<^verbatim>\<open>GameInfo_t\<close>, so the record is nested. The member \<^verbatim>\<open>drop_interval\<close> is never
  read or written by the code and is left out.
\<close>

record Params_t =
  game_info :: GameInfo_t
  drop_time :: timespec
  start :: bool
  currentPiece :: Piece
  nextPiece :: Piece
  fieldForFront :: matrix

text \<open>
  The process-wide state: the three static singletons of \<^verbatim>\<open>initGameState\<close>,
  \<^verbatim>\<open>initGameInfo\<close> and \<^verbatim>\<open>initGameParam\<close>, and the file \<^verbatim>\<open>highscore.txt\<close>
  (\<open>None\<close> when it cannot be opened for reading; \<open>writable\<close> tells whether
  \<^verbatim>\<open>fopen(..., "w")\<close> succeeds).
\<close>

record world =
  state :: Status_game
  param :: Params_t
  highscore_txt :: "int option"
  writable :: bool

section \<open>Matrices and the piece catalogue\<close>

definition initMatrix :: "nat \<Rightarrow> nat \<Rightarrow> matrix" where
  "initMatrix row col = replicate row (replicate col 0)"

text \<open>The index pairs \<open>(i, j)\<close> in the order of the two nested \<^verbatim>\<open>BLOCK\<close> loops.\<close>

definition cells :: "(nat \<times> nat) list" where
  "cells = concat (map (\<lambda>i. map (\<lambda>j. (i, j)) [0..<BLOCK]) [0..<BLOCK])"

definition pieces :: "matrix list" where
  "pieces =
    [[[0, 0, 0, 0], [1, 1, 1, 1], [0, 0, 0, 0], [0, 0, 0, 0]],
     [[1, 1, 0, 0], [1, 1, 0, 0], [0, 0, 0, 0], [0, 0, 0, 0]],
     [[0, 1, 0, 0], [1, 1, 1, 0], [0, 0, 0, 0], [0, 0, 0, 0]],
     [[1, 0, 0, 0], [1, 1, 1, 0], [0, 0, 0, 0], [0, 0, 0, 0]],
     [[0, 0, 1, 0], [1, 1, 1, 0], [0, 0, 0, 0], [0, 0, 0, 0]],
     [[0, 1, 1, 0], [1, 1, 0, 0], [0, 0, 0, 0], [0, 0, 0, 0]],
     [[1, 1, 0, 0], [0, 1, 1, 0], [0, 0, 0, 0], [0, 0, 0, 0]]]"

definition copyPieceShape :: "matrix \<Rightarrow> matrix" where
  "copyPieceShape src = map (\<lambda>i. map (\<lambda>j. src ! i ! j) [0..<BLOCK]) [0..<BLOCK]"

text \<open>The preview grid written by both branches of \<^verbatim>\<open>spawnNewPiece\<close>.\<close>

definition preview :: "Piece \<Rightarrow> matrix" where
  "preview pc =
     map (\<lambda>i. map (\<lambda>j. if shape pc ! i ! j \<noteq> 0 then type pc + 1 else 0) [0..<BLOCK]) [0..<BLOCK]"

section \<open>Collision and placement\<close>

definition place_blocked :: "Params_t \<Rightarrow> nat \<times> nat \<Rightarrow> bool" where
  "place_blocked p = (\<lambda>(i, j).
     shape (currentPiece p) ! i ! j \<noteq> 0 \<and>
     (let x = posX (currentPiece p) + int j; y = posY (currentPiece p) + int i in
        x < 0 \<or> x \<ge> FIELD_WIDTH \<or> y < 0 \<or> y \<ge> FIELD_HEIGHT \<or>
        field (game_info p) ! nat y ! nat x \<noteq> 0))"

definition canPlacePiece :: "Params_t \<Rightarrow> int" where
  "canPlacePiece p =
     fold (\<lambda>c return_value. if place_blocked p c then 0 else return_value) cells 1"

definition fix_cell :: "Piece \<Rightarrow> nat \<times> nat \<Rightarrow> matrix \<Rightarrow> matrix" where
  "fix_cell pc = (\<lambda>(i, j) f.
     if shape pc ! i ! j \<noteq> 0 then
       (let x = posX pc + int j; y = posY pc + int i in
        if x \<ge> 0 \<and> x < FIELD_WIDTH \<and> y \<ge> 0 \<and> y < FIELD_HEIGHT
        then f[nat y := (f ! nat y)[nat x := type pc + 1]] else f)
     else f)"

definition fixFigure :: "Params_t \<Rightarrow> Params_t" where
  "fixFigure p =
     p\<lparr>game_info := (game_info p)\<lparr>field := fold (fix_cell (currentPiece p)) cells (field (game_info p))\<rparr>\<rparr>"

definition overlayCurrentPiece :: "Params_t \<Rightarrow> Params_t" where
  "overlayCurrentPiece p =
     p\<lparr>fieldForFront := fold (fix_cell (currentPiece p)) cells (fieldForFront p)\<rparr>"

section \<open>Line clearing and scoring\<close>

definition full_check :: "matrix \<Rightarrow> nat \<Rightarrow> int" where
  "full_check f y = int (length (filter (\<lambda>x. f ! y ! x \<noteq> 0) [0..<nat FIELD_WIDTH]))"

definition cleanStr :: "matrix \<Rightarrow> nat \<Rightarrow> matrix" where
  "cleanStr f y = fold (\<lambda>x g. g[y := (g ! y)[x := 0]]) [0..<nat FIELD_WIDTH] f"

definition copy_row :: "nat \<Rightarrow> matrix \<Rightarrow> matrix" where
  "copy_row row f =
     fold (\<lambda>col g. g[row := (g ! row)[col := g ! (row - 1) ! col]]) [0..<nat FIELD_WIDTH] f"

definition copyStr :: "matrix \<Rightarrow> nat \<Rightarrow> matrix" where
  "copyStr f y =
     fold (\<lambda>col g. g[0 := (g ! 0)[col := 0]]) [0..<nat FIELD_WIDTH]
       (fold copy_row (rev [1..<Suc y]) f)"

definition updateInfo :: "Params_t \<Rightarrow> int \<Rightarrow> Params_t" where
  "updateInfo p line_full =
     (let newScore = (if line_full = 1 then 100
                      else if line_full = 2 then 300
                      else if line_full = 3 then 700
                      else if line_full = 4 then 1500
                      else 1500);
          gi = (game_info p)\<lparr>score := wrap32 (score (game_info p) + newScore)\<rparr>;
          newLevel = c_div (score gi) 600 + 1;
          newLevel = (if newLevel > 10 then 10 else newLevel)
      in if newLevel \<noteq> level gi then
           (let sp = 1000 - (newLevel - 1) * 100
            in p\<lparr>game_info := gi\<lparr>level := newLevel, speed := (if sp < 100 then 100 else sp)\<rparr>\<rparr>)
         else p\<lparr>game_info := gi\<rparr>)"

text \<open>
  The row loop of \<^verbatim>\<open>updateCurrentGameInfo\<close>: \<open>y\<close> runs from \<open>FIELD_HEIGHT - 1\<close> down
  to \<open>0\<close>; after a full row is cleared the \<^verbatim>\<open>y++\<close> of the body and the \<^verbatim>\<open>y--\<close> of
  the loop head leave \<open>y\<close> as it is, so the same row is examined again. The
  recursion is not structural, so not returning is the value \<open>None\<close>.
\<close>

partial_function (option) clear_rows :: "matrix \<Rightarrow> int \<Rightarrow> int \<Rightarrow> (matrix \<times> int) option" where
  "clear_rows f y line_full =
     (if y \<ge> 0 then
        (if full_check f (nat y) = FIELD_WIDTH
         then clear_rows (copyStr (cleanStr f (nat y)) (nat y)) (y + 1 - 1) (line_full + 1)
         else clear_rows f (y - 1) line_full)
      else Some (f, line_full))"

declare clear_rows.simps [code]

definition updateCurrentGameInfo :: "Params_t \<Rightarrow> Params_t option" where
  "updateCurrentGameInfo p =
     (case clear_rows (field (game_info p)) (FIELD_HEIGHT - 1) 0 of
        None \<Rightarrow> None
      | Some (f, line_full) \<Rightarrow>
          (let p' = p\<lparr>game_info := (game_info p)\<lparr>field := f\<rparr>\<rparr>
           in Some (if line_full \<noteq> 0 then updateInfo p' line_full else p')))"

section \<open>Movement\<close>

text \<open>
  The field is \<^verbatim>\<open>initMatrix(FIELD_HEIGHT, FIELD_WIDTH)\<close>. The three moves read
  \<^verbatim>\<open>field[y][x]\<close> after checking one bound only; a read outside the allocation
  is undefined behaviour in C and is the value \<open>None\<close> here.
\<close>

definition field_at :: "matrix \<Rightarrow> int \<Rightarrow> int \<Rightarrow> int option" where
  "field_at f y x =
     (if 0 \<le> y \<and> y < FIELD_HEIGHT \<and> 0 \<le> x \<and> x < FIELD_WIDTH
      then Some (f ! nat y ! nat x) else None)"

text \<open>
  The common shape of the three move loops: \<^verbatim>\<open>return_value\<close> starts at 1 and is
  set to 0 by every blocked cell; the loops have no early exit.
\<close>

definition scan :: "(nat \<times> nat \<Rightarrow> bool option) \<Rightarrow> int option" where
  "scan blocked =
     fold (\<lambda>c acc. case acc of
                      None \<Rightarrow> None
                    | Some return_value \<Rightarrow>
                        (case blocked c of
                           None \<Rightarrow> None
                         | Some b \<Rightarrow> Some (if b then 0 else return_value)))
          cells (Some 1)"

definition down_blocked :: "Params_t \<Rightarrow> int \<Rightarrow> nat \<times> nat \<Rightarrow> bool option" where
  "down_blocked p newPosY = (\<lambda>(i, j).
     if shape (currentPiece p) ! i ! j \<noteq> 0 then
       (let x = posX (currentPiece p) + int j; y = newPosY + int i in
        if y \<ge> FIELD_HEIGHT then Some True
        else map_option (\<lambda>v. v \<noteq> 0) (field_at (field (game_info p)) y x))
     else Some False)"

definition moveFigureDown :: "Params_t \<Rightarrow> (int \<times> Params_t) option" where
  "moveFigureDown p =
     (let newPosY = posY (currentPiece p) + 1 in
      case scan (down_blocked p newPosY) of
        None \<Rightarrow> None
      | Some return_value \<Rightarrow>
          Some (return_value,
                if return_value \<noteq> 0
                then p\<lparr>currentPiece := (currentPiece p)\<lparr>posY := newPosY\<rparr>\<rparr> else p))"

definition left_blocked :: "Params_t \<Rightarrow> int \<Rightarrow> nat \<times> nat \<Rightarrow> bool option" where
  "left_blocked p newPosX = (\<lambda>(i, j).
     if shape (currentPiece p) ! i ! j \<noteq> 0 then
       (let x = newPosX + int j; y = posY (currentPiece p) + int i in
        if x < 0 then Some True
        else map_option (\<lambda>v. v \<noteq> 0) (field_at (field (game_info p)) y x))
     else Some False)"

definition moveFigureLeft :: "Params_t \<Rightarrow> (int \<times> Params_t) option" where
  "moveFigureLeft p =
     (let newPosX = posX (currentPiece p) - 1 in
      case scan (left_blocked p newPosX) of
        None \<Rightarrow> None
      | Some return_value \<Rightarrow>
          Some (return_value,
                if return_value \<noteq> 0
                then p\<lparr>currentPiece := (currentPiece p)\<lparr>posX := newPosX\<rparr>\<rparr> else p))"

definition right_blocked :: "Params_t \<Rightarrow> int \<Rightarrow> nat \<times> nat \<Rightarrow> bool option" where
  "right_blocked p newPosX = (\<lambda>(i, j).
     if shape (currentPiece p) ! i ! j \<noteq> 0 then
       (let x = newPosX + int j; y = posY (currentPiece p) + int i in
        if x \<ge> FIELD_WIDTH then Some True
        else map_option (\<lambda>v. v \<noteq> 0) (field_at (field (game_info p)) y x))
     else Some False)"

definition moveFigureRight :: "Params_t \<Rightarrow> (int \<times> Params_t) option" where
  "moveFigureRight p =
     (let newPosX = posX (currentPiece p) + 1 in
      case scan (right_blocked p newPosX) of
        None \<Rightarrow> None
      | Some return_value \<Rightarrow>
          Some (return_value,
                if return_value \<noteq> 0
                then p\<lparr>currentPiece := (currentPiece p)\<lparr>posX := newPosX\<rparr>\<rparr> else p))"

section \<open>Rotation\<close>

text \<open>\<^verbatim>\<open>temp[j][BLOCK - 1 - i] = shape[i][j]\<close> for all \<open>i\<close>, \<open>j\<close>; every entry of \<open>temp\<close> is written.\<close>

definition rotate_temp :: "matrix \<Rightarrow> matrix" where
  "rotate_temp s =
     fold (\<lambda>(i, j) temp. temp[j := (temp ! j)[BLOCK - 1 - i := s ! i ! j]]) cells
          (replicate BLOCK (replicate BLOCK 0))"

definition rotateShape :: "matrix \<Rightarrow> matrix" where
  "rotateShape s = copyPieceShape (rotate_temp s)"

definition rotate_blocked :: "Params_t \<Rightarrow> nat \<times> nat \<Rightarrow> bool" where
  "rotate_blocked p = (\<lambda>(i, j).
     rotate_temp (shape (currentPiece p)) ! i ! j \<noteq> 0 \<and>
     (let x = posX (currentPiece p) + int j; y = posY (currentPiece p) + int i in
        x < 0 \<or> x \<ge> FIELD_WIDTH \<or> y < 0 \<or> y \<ge> FIELD_HEIGHT \<or>
        field (game_info p) ! nat y ! nat x \<noteq> 0))"

definition canRotate :: "Params_t \<Rightarrow> int" where
  "canRotate p =
     fold (\<lambda>c return_value. if rotate_blocked p c then 0 else return_value) cells 1"

definition findMinXY :: "matrix \<Rightarrow> int \<times> int" where
  "findMinXY s =
     fold (\<lambda>(i, j) (minX, minY).
             if s ! i ! j \<noteq> 0
             then (if int j < minX then int j else minX, if int i < minY then int i else minY)
             else (minX, minY))
          cells (int BLOCK, int BLOCK)"

definition adjustPositionForLine :: "Params_t \<Rightarrow> Params_t" where
  "adjustPositionForLine p =
     (let cur = currentPiece p in
      if type cur = 0 then
        (if c_mod (rotation cur) 2 = 0
         then p\<lparr>currentPiece := cur\<lparr>posX := posX cur + 1, posY := posY cur - 1\<rparr>\<rparr>
         else p\<lparr>currentPiece := cur\<lparr>posX := posX cur - 1, posY := posY cur + 1\<rparr>\<rparr>)
      else p)"

definition rotatePiece :: "Params_t \<Rightarrow> int \<times> Params_t" where
  "rotatePiece p =
     (if canRotate p = 0 then (0, p)
      else if type (currentPiece p) = 1 then (1, p)
      else
        (let oldShape = copyPieceShape (shape (currentPiece p));
             oldPosX = posX (currentPiece p);
             oldPosY = posY (currentPiece p);
             p1 = p\<lparr>currentPiece := (currentPiece p)\<lparr>shape := rotateShape (shape (currentPiece p))\<rparr>\<rparr>;
             (oldMinX, oldMinY) = findMinXY oldShape;
             (newMinX, newMinY) = findMinXY (shape (currentPiece p1));
             offsetX = oldMinX - newMinX;
             offsetY = oldMinY - newMinY;
             p2 = p1\<lparr>currentPiece := (currentPiece p1)\<lparr>posX := oldPosX + offsetX, posY := oldPosY + offsetY\<rparr>\<rparr>;
             p3 = adjustPositionForLine p2
         in if canPlacePiece p3 = 0 then
              (0, p3\<lparr>currentPiece :=
                       (currentPiece p3)\<lparr>shape := copyPieceShape oldShape, posX := oldPosX, posY := oldPosY\<rparr>\<rparr>)
            else
              (1, p3\<lparr>currentPiece :=
                       (currentPiece p3)\<lparr>rotation := c_mod (rotation (currentPiece p3) + 1) 4\<rparr>\<rparr>)))"

section \<open>Spawning\<close>

text \<open>\<open>rnd\<close> is the value \<^verbatim>\<open>rand()\<close> returns if it is called.\<close>

definition spawnNewPiece :: "Params_t \<Rightarrow> bool \<Rightarrow> nat \<Rightarrow> int \<times> Params_t" where
  "spawnNewPiece p isInit rnd =
     (if isInit then
        (let indexNext = rnd mod 7;
             nx = \<lparr>shape = copyPieceShape (pieces ! indexNext),
                   posX = c_div FIELD_WIDTH 2 - c_div (int BLOCK) 2, posY = 0,
                   type = int indexNext, rotation = 0\<rparr>
         in (1, p\<lparr>nextPiece := nx, game_info := (game_info p)\<lparr>next' := preview nx\<rparr>\<rparr>))
      else
        (let p1 = p\<lparr>currentPiece :=
                      (currentPiece p)\<lparr>shape := copyPieceShape (shape (nextPiece p)),
                                       type := type (nextPiece p), rotation := 0,
                                       posX := c_div FIELD_WIDTH 2 - c_div (int BLOCK) 2,
                                       posY := 0\<rparr>\<rparr>
         in if canPlacePiece p1 \<noteq> 0 then
              (let index = rnd mod 7;
                   nx = \<lparr>shape = copyPieceShape (pieces ! index),
                         posX = c_div FIELD_WIDTH 2 - c_div (int BLOCK) 2, posY = 0,
                         type = int index, rotation = 0\<rparr>
               in (1, p1\<lparr>nextPiece := nx, game_info := (game_info p1)\<lparr>next' := preview nx\<rparr>\<rparr>))
            else (0, p1)))"

section \<open>Timer, snapshot and high score\<close>

text \<open>\<open>cur_time\<close> is the value \<^verbatim>\<open>clock_gettime(CLOCK_MONOTONIC, ...)\<close> stores.\<close>

definition getTime :: "Params_t \<Rightarrow> timespec \<Rightarrow> int \<times> Params_t" where
  "getTime p cur_time =
     (let drop_interval = (fst cur_time - fst (drop_time p)) * 1000 +
                          c_div (snd cur_time - snd (drop_time p)) 1000000
      in if drop_interval \<ge> speed (game_info p) then (1, p\<lparr>drop_time := cur_time\<rparr>) else (0, p))"

text \<open>
  \<^verbatim>\<open>createGameInfo\<close> returns the snapshot; its writes to the shared buffer
  \<^verbatim>\<open>fieldForFront\<close> are returned as the second component.
\<close>

definition createGameInfo :: "Params_t \<Rightarrow> int \<Rightarrow> GameInfo_t \<times> Params_t" where
  "createGameInfo p return_check =
     (if return_check = 0 then (game_info p, p)
      else
        (let buf = map (\<lambda>i. map (\<lambda>j. field (game_info p) ! i ! j) [0..<nat FIELD_WIDTH])
                       [0..<nat FIELD_HEIGHT];
             p' = overlayCurrentPiece (p\<lparr>fieldForFront := buf\<rparr>)
         in (\<lparr>field = fieldForFront p', next' = next' (game_info p),
              score = score (game_info p), high_score = high_score (game_info p),
              level = level (game_info p), speed = speed (game_info p),
              pause = pause (game_info p)\<rparr>, p')))"

definition getHighScore :: "world \<Rightarrow> int" where
  "getHighScore w = (case highscore_txt w of None \<Rightarrow> 0 | Some highScore \<Rightarrow> highScore)"

definition addHighScore :: "int \<Rightarrow> world \<Rightarrow> int \<times> world" where
  "addHighScore newScore w =
     (let currentHigh = getHighScore w in
      if newScore \<le> currentHigh then (0, w)
      else if \<not> writable w then (0, w)
      else (1, w\<lparr>highscore_txt := Some newScore\<rparr>))"

section \<open>Input dispatcher and state machine\<close>

text \<open>
  \<^verbatim>\<open>while (moveFigureDown(param)) {}\<close>: the loop runs for as long as the move
  succeeds, so not returning is the value \<open>None\<close>.
\<close>

partial_function (option) hard_drop :: "Params_t \<Rightarrow> Params_t option" where
  "hard_drop p =
     (case moveFigureDown p of
        None \<Rightarrow> None
      | Some (r, p') \<Rightarrow> if r \<noteq> 0 then hard_drop p' else Some p')"

declare hard_drop.simps [code]

definition userInput :: "UserAction_t \<Rightarrow> bool \<Rightarrow> world \<Rightarrow> world option" where
  "userInput action hold w =
     (let p = param w; gi = game_info p in
      if \<not> hold then
        (case action of
           Start \<Rightarrow>
             if state w = Start_t \<or> state w = GameOver
             then Some (w\<lparr>param := p\<lparr>start := True\<rparr>, state := Spawn\<rparr>) else Some w
         | Pause \<Rightarrow>
             if state w = Pause_t
             then Some (w\<lparr>state := Moving, param := p\<lparr>game_info := gi\<lparr>pause := 0\<rparr>\<rparr>\<rparr>)
             else if state w = Moving
             then Some (w\<lparr>state := Pause_t, param := p\<lparr>game_info := gi\<lparr>pause := 1\<rparr>\<rparr>\<rparr>)
             else Some w
         | Terminate \<Rightarrow>
             (let w1 = (if score gi > high_score gi then snd (addHighScore (score gi) w) else w);
                  w2 = (if pause gi = 1
                        then w1\<lparr>param := p\<lparr>game_info := gi\<lparr>pause := 2\<rparr>\<rparr>\<rparr> else w1)
              in Some (w2\<lparr>state := GameOver\<rparr>))
         | Left \<Rightarrow>
             if state w = Moving \<and> pause gi = 0
             then map_option (\<lambda>(r, p'). w\<lparr>param := p'\<rparr>) (moveFigureLeft p) else Some w
         | Right \<Rightarrow>
             if state w = Moving \<and> pause gi = 0
             then map_option (\<lambda>(r, p'). w\<lparr>param := p'\<rparr>) (moveFigureRight p) else Some w
         | Up \<Rightarrow> Some w
         | Down \<Rightarrow> Some w
         | Action \<Rightarrow>
             if state w = Moving \<and> pause gi = 0
             then Some (w\<lparr>param := snd (rotatePiece p)\<rparr>) else Some w)
      else
        (if state w = Moving \<and> pause gi = 0
         then map_option (\<lambda>p'. w\<lparr>param := p'\<rparr>) (hard_drop p) else Some w))"

text \<open>
  One tick. \<open>cur_time\<close> and \<open>rnd\<close> are what the clock and \<^verbatim>\<open>rand()\<close> give if the
  tick asks for them. \<open>switch_state\<close> is the \<^verbatim>\<open>switch (*state)\<close> block of
  \<^verbatim>\<open>updateCurrentState\<close>; the result of the tick is the returned snapshot and the
  new state.
\<close>

definition switch_state :: "timespec \<Rightarrow> nat \<Rightarrow> world \<Rightarrow> world option" where
  "switch_state cur_time rnd w =
     (let p = param w in
      case state w of
        Start_t \<Rightarrow> Some (if start p then w\<lparr>state := Spawn\<rparr> else w)
      | Spawn \<Rightarrow>
          (case spawnNewPiece p False rnd of
             (r, p') \<Rightarrow> Some (w\<lparr>param := p', state := (if r \<noteq> 0 then Moving else GameOver)\<rparr>))
      | Moving \<Rightarrow>
          (case getTime p cur_time of
             (r, p') \<Rightarrow> Some (if r \<noteq> 0 then w\<lparr>param := p', state := Shifting\<rparr>
                               else w\<lparr>param := p'\<rparr>))
      | Shifting \<Rightarrow>
          map_option (\<lambda>(r, p'). w\<lparr>param := p', state := (if r = 0 then Attaching else Moving)\<rparr>)
            (moveFigureDown p)
      | Pause_t \<Rightarrow> Some w
      | Attaching \<Rightarrow>
          map_option (\<lambda>p'. w\<lparr>param := p', state := Spawn\<rparr>)
            (updateCurrentGameInfo (fixFigure p))
      | Terminate_t \<Rightarrow>
          (let w1 = w\<lparr>param := p\<lparr>game_info := (game_info p)\<lparr>pause := 2\<rparr>\<rparr>\<rparr>
           in Some (snd (addHighScore (score (game_info p)) w1)))
      | GameOver \<Rightarrow>
          (let w1 = w\<lparr>param := p\<lparr>game_info := (game_info p)\<lparr>pause := 2\<rparr>\<rparr>\<rparr>
           in Some (snd (addHighScore (score (game_info p)) w1))))"

definition updateCurrentState :: "timespec \<Rightarrow> nat \<Rightarrow> world \<Rightarrow> (GameInfo_t \<times> world) option" where
  "updateCurrentState cur_time rnd w =
     (let return_check = (if pause (game_info (param w)) = 1 \<or> \<not> start (param w) then 0 else (1::int))
      in case (if return_check \<noteq> 0 then switch_state cur_time rnd w else Some w) of
           None \<Rightarrow> None
         | Some w' \<Rightarrow>
             (case createGameInfo (param w') return_check of
                (game, p') \<Rightarrow> Some (game, w'\<lparr>param := p'\<rparr>)))"

text \<open>
  \<^verbatim>\<open>initGame\<close>. It allocates the three grids, loads the high score, draws the
  first next piece and sets the state; the current piece, the start flag and
  the drop time keep the values they had. Seeding the generator is outside the model:
  the drawn values are inputs.
\<close>

definition initGame :: "nat \<Rightarrow> world \<Rightarrow> world" where
  "initGame rnd w =
     (let gi = \<lparr>field = initMatrix (nat FIELD_HEIGHT) (nat FIELD_WIDTH),
                next' = initMatrix BLOCK BLOCK,
                score = 0, high_score = getHighScore w, level = 1, speed = 1000, pause = 0\<rparr>;
          p = (param w)\<lparr>game_info := gi,
                        fieldForFront := initMatrix (nat FIELD_HEIGHT) (nat FIELD_WIDTH)\<rparr>
      in w\<lparr>param := snd (spawnNewPiece p True rnd), state := Start_t\<rparr>)"

section \<open>Runs of the game\<close>

text \<open>
  The static storage before \<^verbatim>\<open>initGame\<close>: everything is zero, the three grid
  pointers are null (written as empty grids here; \<^verbatim>\<open>initGame\<close> replaces them
  before anything reads them).
\<close>

definition boot :: "int option \<Rightarrow> bool \<Rightarrow> world" where
  "boot hs wr =
     \<lparr>state = Start_t,
      param = \<lparr>game_info = \<lparr>field = [], next' = [], score = 0, high_score = 0, level = 0,
                             speed = 0, pause = 0\<rparr>,
               drop_time = (0, 0), start = False,
               currentPiece = \<lparr>shape = initMatrix BLOCK BLOCK, posX = 0, posY = 0, type = 0, rotation = 0\<rparr>,
               nextPiece = \<lparr>shape = initMatrix BLOCK BLOCK, posX = 0, posY = 0, type = 0, rotation = 0\<rparr>,
               fieldForFront = []\<rparr>,
      highscore_txt = hs, writable = wr\<rparr>"

text \<open>
  The calls the front end makes: \<^verbatim>\<open>initGame\<close>, \<^verbatim>\<open>userInput\<close> and
  \<^verbatim>\<open>updateCurrentState\<close>, each with what the generator and the clock give it.
\<close>

datatype event = InitGame nat | UserInput UserAction_t bool | Tick timespec nat

fun step :: "event \<Rightarrow> world \<Rightarrow> world option" where
  "step (InitGame rnd) w = Some (initGame rnd w)"
| "step (UserInput action hold) w = userInput action hold w"
| "step (Tick cur_time rnd) w = map_option snd (updateCurrentState cur_time rnd w)"

fun run :: "event list \<Rightarrow> world \<Rightarrow> world option" where
  "run [] w = Some w"
| "run (e # es) w = (case step e w of None \<Rightarrow> None | Some w' \<Rightarrow> run es w')"

section \<open>Specification-side notions and example states\<close>

text \<open>The score added for \<open>n\<close> cleared rows, and the level that belongs to a score.\<close>

definition line_bonus :: "int \<Rightarrow> int" where
  "line_bonus n = (if n = 1 then 100 else if n = 2 then 300 else if n = 3 then 700 else 1500)"

definition level_of :: "int \<Rightarrow> int" where
  "level_of s = (if c_div s 600 + 1 > 10 then 10 else c_div s 600 + 1)"

text \<open>The values a 32-bit \<^verbatim>\<open>int\<close> can hold.\<close>

definition int32 :: "int \<Rightarrow> bool" where
  "int32 x \<longleftrightarrow> - 2147483648 \<le> x \<and> x \<le> 2147483647"

text \<open>A piece of the catalogue at a position, and a running game around a field.\<close>

definition piece_at :: "nat \<Rightarrow> int \<Rightarrow> int \<Rightarrow> Piece" where
  "piece_at k x y = \<lparr>shape = pieces ! k, posX = x, posY = y, type = int k, rotation = 0\<rparr>"

definition game_with :: "matrix \<Rightarrow> int \<Rightarrow> Piece \<Rightarrow> Piece \<Rightarrow> Params_t" where
  "game_with f sc cur nx =
     \<lparr>game_info = \<lparr>field = f, next' = preview nx, score = sc, high_score = 0,
                   level = level_of sc, speed = 1000 - (level_of sc - 1) * 100, pause = 0\<rparr>,
      drop_time = (0, 0), start = True, currentPiece = cur, nextPiece = nx,
      fieldForFront = f\<rparr>"

text \<open>
  What a move asks of the candidate position: every occupied cell passes the
  bound of the direction and lies on an empty field cell.
\<close>

definition left_ok :: "Params_t \<Rightarrow> bool" where
  "left_ok p = (\<forall>i<4. \<forall>j<4. shape (currentPiece p) ! i ! j \<noteq> 0 \<longrightarrow>
      0 \<le> posX (currentPiece p) - 1 + int j \<and>
      field (game_info p) ! nat (posY (currentPiece p) + int i) ! nat (posX (currentPiece p) - 1 + int j) = 0)"

definition right_ok :: "Params_t \<Rightarrow> bool" where
  "right_ok p = (\<forall>i<4. \<forall>j<4. shape (currentPiece p) ! i ! j \<noteq> 0 \<longrightarrow>
      posX (currentPiece p) + 1 + int j < FIELD_WIDTH \<and>
      field (game_info p) ! nat (posY (currentPiece p) + int i) ! nat (posX (currentPiece p) + 1 + int j) = 0)"

definition down_ok :: "Params_t \<Rightarrow> bool" where
  "down_ok p = (\<forall>i<4. \<forall>j<4. shape (currentPiece p) ! i ! j \<noteq> 0 \<longrightarrow>
      posY (currentPiece p) + 1 + int i < FIELD_HEIGHT \<and>
      field (game_info p) ! nat (posY (currentPiece p) + 1 + int i) ! nat (posX (currentPiece p) + int j) = 0)"

text \<open>A started game on the empty field with the T-piece at its spawn position.\<close>

definition T_start :: Params_t where
  "T_start = game_with (initMatrix 20 10) 0 (piece_at 2 3 0) (piece_at 1 3 0)"

text \<open>The C type \<^verbatim>\<open>int shape[BLOCK][BLOCK]\<close>: four rows of four cells.\<close>

definition wf_shape :: "matrix \<Rightarrow> bool" where
  "wf_shape s \<longleftrightarrow> length s = 4 \<and> (\<forall>r\<in>set s. length r = 4)"

text \<open>
  The nudge \<^verbatim>\<open>adjustPositionForLine\<close> applies, and the piece a committed rotation
  leaves: the rotated template, the offset that keeps the bounding-box corner,
  the nudge, and the advanced rotation counter.
\<close>

definition line_nudge :: "Piece \<Rightarrow> int \<times> int" where
  "line_nudge pc =
     (if type pc = 0 then (if c_mod (rotation pc) 2 = 0 then (1, - 1) else (- 1, 1)) else (0, 0))"

definition rotated_piece :: "Piece \<Rightarrow> Piece" where
  "rotated_piece pc =
     \<lparr>shape = rotateShape (shape pc),
      posX = posX pc + (fst (findMinXY (shape pc)) - fst (findMinXY (rotateShape (shape pc)))) + fst (line_nudge pc),
      posY = posY pc + (snd (findMinXY (shape pc)) - snd (findMinXY (rotateShape (shape pc)))) + snd (line_nudge pc),
      type = type pc,
      rotation = c_mod (rotation pc + 1) 4\<rparr>"

text \<open>Example games on the empty field: the O-piece at the right wall and at its spawn position, and the four orientations of the I-piece.\<close>

definition O_wall :: Params_t where
  "O_wall = game_with (initMatrix 20 10) 0 (piece_at 1 8 0) (piece_at 2 3 0)"

definition O_start :: Params_t where
  "O_start = game_with (initMatrix 20 10) 0 (piece_at 1 3 0) (piece_at 2 3 0)"

definition I_rot :: "nat \<Rightarrow> Params_t" where
  "I_rot k = game_with (initMatrix 20 10) 0
     ([\<lparr>shape = [[0, 0, 0, 0], [1, 1, 1, 1], [0, 0, 0, 0], [0, 0, 0, 0]], posX = 3, posY = 5, type = 0, rotation = 0\<rparr>,
       \<lparr>shape = [[0, 0, 1, 0], [0, 0, 1, 0], [0, 0, 1, 0], [0, 0, 1, 0]], posX = 2, posY = 5, type = 0, rotation = 1\<rparr>,
       \<lparr>shape = [[0, 0, 0, 0], [0, 0, 0, 0], [1, 1, 1, 1], [0, 0, 0, 0]], posX = 3, posY = 4, type = 0, rotation = 2\<rparr>,
       \<lparr>shape = [[0, 1, 0, 0], [0, 1, 0, 0], [0, 1, 0, 0], [0, 1, 0, 0]], posX = 3, posY = 5, type = 0, rotation = 3\<rparr>] ! k)
     (piece_at 2 3 0)"

text \<open>
  A piece is legally placed on a field: every occupied cell of its template
  lies inside the field and on an empty field cell.
\<close>

definition placed_legally :: "matrix \<Rightarrow> Piece \<Rightarrow> bool" where
  "placed_legally f pc = (\<forall>i<4. \<forall>j<4. shape pc ! i ! j \<noteq> 0 \<longrightarrow>
      0 \<le> posX pc + int j \<and> posX pc + int j < FIELD_WIDTH \<and>
      0 \<le> posY pc + int i \<and> posY pc + int i < FIELD_HEIGHT \<and>
      f ! nat (posY pc + int i) ! nat (posX pc + int j) = 0)"

text \<open>The piece a spawn promotes from the next piece, and the next piece drawn from \<open>rnd\<close>.\<close>

definition spawned :: "Piece \<Rightarrow> Piece" where
  "spawned nx = \<lparr>shape = shape nx, posX = 3, posY = 0, type = type nx, rotation = 0\<rparr>"

definition drawn :: "nat \<Rightarrow> Piece" where
  "drawn rnd = \<lparr>shape = pieces ! (rnd mod 7), posX = 3, posY = 0, type = int (rnd mod 7), rotation = 0\<rparr>"

text \<open>
  States of a short run: after \<^verbatim>\<open>initGame\<close> and Start (\<open>W_spawn\<close>), after the
  tick that spawns the T-piece (\<open>W_moving\<close>, whose render buffer \<open>front_T\<close> shows
  the piece), and after Pause (\<open>W_paused\<close>, with a chosen score).
\<close>

definition front_T :: matrix where
  "front_T = fold (fix_cell (piece_at 2 3 0)) cells (initMatrix 20 10)"

definition W_spawn :: world where
  "W_spawn = \<lparr>state = Spawn,
      param = game_with (initMatrix 20 10) 0
                 \<lparr>shape = initMatrix BLOCK BLOCK, posX = 0, posY = 0, type = 0, rotation = 0\<rparr> (piece_at 2 3 0),
      highscore_txt = None, writable = True\<rparr>"

definition W_moving :: world where
  "W_moving = \<lparr>state = Moving, param = T_start\<lparr>fieldForFront := front_T\<rparr>,
                highscore_txt = None, writable = True\<rparr>"

definition W_paused :: "int \<Rightarrow> world" where
  "W_paused sc = W_moving\<lparr>state := Pause_t,
       param := (param W_moving)\<lparr>game_info := (game_info (param W_moving))\<lparr>pause := 1, score := sc\<rparr>\<rparr>\<rparr>"

text \<open>
  A game that was ended and started again: Start, the tick that spawns the
  T-piece, Terminate, the tick that handles \<open>GameOver\<close> and sets the flag to 2,
  Start again, and the tick that spawns the O-piece. The state is \<open>Moving\<close> and the
  flag is still 2, since Start does not reset it.
\<close>

definition restart_calls :: "event list" where
  "restart_calls = [UserInput Start False, Tick (0, 0) 1, UserInput Terminate False,
                    Tick (0, 0) 0, UserInput Start False, Tick (0, 0) 3]"

definition W_flag2 :: world where
  "W_flag2 = \<lparr>state = Moving,
      param = \<lparr>game_info = \<lparr>field = initMatrix 20 10, next' = preview (piece_at 3 3 0), score = 0,
                              high_score = 0, level = 1, speed = 1000, pause = 2\<rparr>,
               drop_time = (0, 0), start = True, currentPiece = piece_at 1 3 0,
               nextPiece = piece_at 3 3 0,
               fieldForFront = fold (fix_cell (piece_at 1 3 0)) cells (initMatrix 20 10)\<rparr>,
      highscore_txt = None, writable = True\<rparr>"

text \<open>
  The field as \<^verbatim>\<open>initMatrix(FIELD_HEIGHT, FIELD_WIDTH)\<close> allocates it: 20 rows of 10
  cells. A row is full when no cell of it is 0; \<open>full_rows\<close> counts the full rows;
  \<open>cleared f y\<close> is the field after row \<open>y\<close> is removed, the rows above have moved
  down by one and an empty row has entered at the top.
\<close>

definition wf_field :: "matrix \<Rightarrow> bool" where
  "wf_field f \<longleftrightarrow> length f = 20 \<and> (\<forall>r\<in>set f. length r = 10)"

definition row_full :: "int list \<Rightarrow> bool" where
  "row_full r \<longleftrightarrow> (\<forall>c\<in>set r. c \<noteq> 0)"

definition full_rows :: "matrix \<Rightarrow> nat" where
  "full_rows f = length (filter row_full f)"

definition cleared :: "matrix \<Rightarrow> nat \<Rightarrow> matrix" where
  "cleared f y = replicate 10 0 # take y f @ drop (Suc y) f"



text \<open>
  The game with its current piece \<open>n\<close> rows further down, and legality of the
  current piece on the game's own field.
\<close>

definition lowered :: "Params_t \<Rightarrow> nat \<Rightarrow> Params_t" where
  "lowered p n = p\<lparr>currentPiece := (currentPiece p)\<lparr>posY := posY (currentPiece p) + int n\<rparr>\<rparr>"

definition legal :: "Params_t \<Rightarrow> bool" where
  "legal p = placed_legally (field (game_info p)) (currentPiece p)"

text \<open>
  Every occupied cell of a piece lies inside the field; and the property of a
  game state that the current piece is inside the field and, unless the state
  machine is in \<open>Spawn\<close> or \<open>GameOver\<close>, legally placed.
\<close>

definition in_bounds :: "Piece \<Rightarrow> bool" where
  "in_bounds pc = (\<forall>i<4. \<forall>j<4. shape pc ! i ! j \<noteq> 0 \<longrightarrow>
      0 \<le> posX pc + int j \<and> posX pc + int j < FIELD_WIDTH \<and>
      0 \<le> posY pc + int i \<and> posY pc + int i < FIELD_HEIGHT)"

definition piece_inv :: "world \<Rightarrow> bool" where
  "piece_inv w \<longleftrightarrow> in_bounds (currentPiece (param w)) \<and>
     (state w \<noteq> Spawn \<and> state w \<noteq> GameOver \<longrightarrow>
        placed_legally (field (game_info (param w))) (currentPiece (param w)))"

text \<open>
  The state after the T-piece has been dropped to the bottom and fixed into the
  field by the \<open>Attaching\<close> tick.
\<close>

definition W_fixed :: world where
  "W_fixed = \<lparr>state = Spawn,
      param = (game_with (fold (fix_cell (piece_at 2 3 18)) cells (initMatrix 20 10)) 0
                 (piece_at 2 3 18) (piece_at 1 3 0))\<lparr>drop_time := (1, 0)\<rparr>,
      highscore_txt = None, writable = True\<rparr>"

text \<open>
  Score, level and speed are values of a 32-bit \<^verbatim>\<open>int\<close>; a template with an
  occupied cell; an operation that changes neither the game information nor the
  next piece and keeps a non-empty template non-empty; and the property of a
  game state from which every call returns.
\<close>

definition stats_inv :: "GameInfo_t \<Rightarrow> bool" where
  "stats_inv gi \<longleftrightarrow> int32 (score gi) \<and> int32 (level gi) \<and> int32 (speed gi)"

definition nonempty :: "matrix \<Rightarrow> bool" where
  "nonempty s \<longleftrightarrow> (\<exists>i<4. \<exists>j<4. s ! i ! j \<noteq> 0)"

definition keeps :: "Params_t \<Rightarrow> Params_t \<Rightarrow> bool" where
  "keeps p p' \<longleftrightarrow> game_info p' = game_info p \<and> nextPiece p' = nextPiece p \<and>
     (nonempty (shape (currentPiece p)) \<longrightarrow> nonempty (shape (currentPiece p')))"

definition safe_inv :: "world \<Rightarrow> bool" where
  "safe_inv w \<longleftrightarrow> piece_inv w \<and> wf_field (field (game_info (param w))) \<and>
     nonempty (shape (nextPiece (param w))) \<and> state w \<noteq> Terminate_t \<and>
     (state w = Moving \<or> state w = Shifting \<or> state w = Pause_t \<or> state w = Attaching \<longrightarrow>
        nonempty (shape (currentPiece (param w))))"

section \<open>Loops over the cells of a piece\<close>


lemma cells_eq:
  "cells = [(0,0),(0,1),(0,2),(0,3),(1,0),(1,1),(1,2),(1,3),(2,0),(2,1),(2,2),(2,3),(3,0),(3,1),(3,2),(3,3)]"
  by (simp add: cells_def upt_rec[of _ 4] upt_rec[of _ "Suc _"] numeral_eq_Suc)

lemma set_cells: "set cells = {(i, j). i < 4 \<and> j < 4}"
  by (auto simp: cells_def)

lemma fold_flag:
  "fold (\<lambda>c r. if P c then 0 else r) cs (r0::int) = (if \<exists>c\<in>set cs. P c then 0 else r0)"
  by (induction cs arbitrary: r0) auto

lemma canPlacePiece_iff: "canPlacePiece p = (if \<exists>i<4. \<exists>j<4. place_blocked p (i, j) then 0 else 1)"
  by (auto simp: canPlacePiece_def fold_flag set_cells)

lemma canRotate_iff: "canRotate p = (if \<exists>i<4. \<exists>j<4. rotate_blocked p (i, j) then 0 else 1)"
  by (auto simp: canRotate_def fold_flag set_cells)

lemma fold_scan:
  "fold (\<lambda>c acc. case acc of None \<Rightarrow> None
                  | Some r \<Rightarrow> (case blocked c of None \<Rightarrow> None | Some b \<Rightarrow> Some (if b then 0 else r)))
        cs acc0 =
   (case acc0 of None \<Rightarrow> None
    | Some (r0::int) \<Rightarrow> if \<exists>c\<in>set cs. blocked c = None then None
                 else Some (if \<exists>c\<in>set cs. blocked c = Some True then 0 else r0))"
proof (induction cs arbitrary: acc0)
  case Nil
  then show ?case by (simp split: option.splits)
next
  case (Cons c cs)
  show ?case
    by (cases acc0; cases "blocked c") (auto simp: Cons.IH)
qed

lemma scan_eq:
  "scan blocked =
     (if \<exists>i<4. \<exists>j<4. blocked (i, j) = None then None
      else Some (if \<exists>i<4. \<exists>j<4. blocked (i, j) = Some True then 0 else 1))"
  by (auto simp: scan_def fold_scan set_cells)



lemma all_less_4: "(\<forall>i<4::nat. P i) \<longleftrightarrow> P 0 \<and> P 1 \<and> P 2 \<and> P 3"
proof -
  have "i < 4 \<longleftrightarrow> i = 0 \<or> i = 1 \<or> i = 2 \<or> i = 3" for i :: nat by arith
  then show ?thesis by auto
qed

lemma ex_less_4: "(\<exists>i<4::nat. P i) \<longleftrightarrow> P 0 \<or> P 1 \<or> P 2 \<or> P 3"
  using all_less_4[of "\<lambda>i. \<not> P i"] by blast

lemma piece_at_sel:
  "shape (piece_at k x y) = pieces ! k" "posX (piece_at k x y) = x" "posY (piece_at k x y) = y"
  "type (piece_at k x y) = int k" "rotation (piece_at k x y) = 0"
  by (simp_all add: piece_at_def)

lemma game_with_sel:
  "currentPiece (game_with f sc cur nx) = cur" "field (game_info (game_with f sc cur nx)) = f"
  "nextPiece (game_with f sc cur nx) = nx"
  by (simp_all add: game_with_def)

section \<open>Scoring, level and speed\<close>

lemma c_div_nonneg: "0 \<le> a \<Longrightarrow> 0 < b \<Longrightarrow> c_div a b = a div b"
  by (cases "a = 0") (simp_all add: c_div_def)

lemma wrap32_id: "int32 x \<Longrightarrow> wrap32 x = x"
  by (simp add: wrap32_def int32_def)

lemma wrap32_int32: "int32 (wrap32 x)"
proof -
  have "0 \<le> (x + 2147483648) mod 4294967296" "(x + 2147483648) mod 4294967296 < 4294967296"
    by simp_all
  then show ?thesis by (simp add: wrap32_def int32_def)
qed

lemma updateInfo_unfold:
  "updateInfo p n =
     (if level_of (wrap32 (score (game_info p) + line_bonus n)) \<noteq> level (game_info p)
      then p\<lparr>game_info := (game_info p)\<lparr>score := wrap32 (score (game_info p) + line_bonus n),
              level := level_of (wrap32 (score (game_info p) + line_bonus n)),
              speed := (if 1000 - (level_of (wrap32 (score (game_info p) + line_bonus n)) - 1) * 100 < 100 then 100
                        else 1000 - (level_of (wrap32 (score (game_info p) + line_bonus n)) - 1) * 100)\<rparr>\<rparr>
      else p\<lparr>game_info := (game_info p)\<lparr>score := wrap32 (score (game_info p) + line_bonus n)\<rparr>\<rparr>)"
  unfolding updateInfo_def Let_def line_bonus_def level_of_def
  by (simp split del: if_split cong: if_cong)

lemma line_bonus_nonneg: "0 \<le> line_bonus n"
  by (simp add: line_bonus_def)


lemma updateInfo_score:
  "score (game_info (updateInfo p n)) = wrap32 (score (game_info p) + line_bonus n)"
  by (simp add: updateInfo_unfold)

text \<open>
  The sum does not wrap when the old score is not negative and the sum is at most
  2147483647.
\<close>

lemma updateInfo_score_in_range:
  assumes "0 \<le> score (game_info p)" "score (game_info p) + line_bonus n \<le> 2147483647"
  shows "score (game_info (updateInfo p n)) = score (game_info p) + line_bonus n"
    and "0 \<le> score (game_info (updateInfo p n))"
proof -
  have "int32 (score (game_info p) + line_bonus n)"
    using assms line_bonus_nonneg[of n] by (simp add: int32_def)
  then show "score (game_info (updateInfo p n)) = score (game_info p) + line_bonus n"
    by (simp add: updateInfo_score wrap32_id)
  then show "0 \<le> score (game_info (updateInfo p n))"
    using assms(1) line_bonus_nonneg[of n] by simp
qed

text \<open>
  Level and speed computed from a 32-bit score are 32-bit values, and so is every
  intermediate value of their computation.
\<close>

lemma level_of_bounds:
  assumes "int32 s"
  shows "- 3579138 \<le> level_of s" "level_of s \<le> 10"
proof -
  have "- 3579139 \<le> c_div s 600"
  proof (cases "0 \<le> s")
    case True
    then show ?thesis by (simp add: c_div_nonneg)
  next
    case False
    then have "c_div s 600 = - ((- s) div 600)" by (simp add: c_div_def)
    moreover have "(- s) div 600 \<le> 3579139" using assms False by (simp add: int32_def)
    ultimately show ?thesis by simp
  qed
  then show "- 3579138 \<le> level_of s" "level_of s \<le> 10"
    by (simp_all add: level_of_def)
qed

lemma updateInfo_int32:
  assumes "int32 (level (game_info p))" "int32 (speed (game_info p))"
  shows "int32 (score (game_info (updateInfo p n)))
       \<and> int32 (level (game_info (updateInfo p n)))
       \<and> int32 (speed (game_info (updateInfo p n)))"
proof -
  define S where "S = wrap32 (score (game_info p) + line_bonus n)"
  have S: "int32 S" by (simp add: S_def wrap32_int32)
  note L = level_of_bounds[OF S]
  show ?thesis
  proof (cases "level_of S = level (game_info p)")
    case True
    then show ?thesis using S assms by (simp add: updateInfo_unfold S_def[symmetric])
  next
    case False
    then show ?thesis using S L by (simp add: updateInfo_unfold S_def[symmetric] int32_def)
  qed
qed



section \<open>The line-clear pass\<close>

lemma fold_row_nth:
  "k < length r \<Longrightarrow> fold (\<lambda>x r. r[x := c x]) xs r ! k = (if k \<in> set xs then c k else r ! k)"
  and fold_row_length: "length (fold (\<lambda>x r. r[x := c x]) xs r) = length r"
  by (induction xs arbitrary: r) auto

lemma fold_row_all:
  "length r = n \<Longrightarrow> fold (\<lambda>x r. r[x := c x]) [0..<n] r = map c [0..<n]"
  by (rule nth_equalityI) (simp_all add: fold_row_length fold_row_nth)

lemma fold_cell_row:
  "y < length f \<Longrightarrow>
   fold (\<lambda>x g. g[y := (g ! y)[x := c x]]) xs f = f[y := fold (\<lambda>x r. r[x := c x]) xs (f ! y)]"
  by (induction xs arbitrary: f) simp_all

lemma cleanStr_eq:
  assumes "y < length f" "length (f ! y) = 10"
  shows "cleanStr f y = f[y := replicate 10 0]"
proof -
  have "fold (\<lambda>x r. r[x := 0]) [0..<10] (f ! y) = map (\<lambda>_. 0) [0..<10]"
    using fold_row_all[of "f ! y" 10 "\<lambda>_. 0"] assms(2) by simp
  also have "\<dots> = replicate 10 0" by (simp add: map_replicate_const)
  finally show ?thesis using assms(1) by (simp add: cleanStr_def fold_cell_row)
qed

lemma fold_copy_row:
  "row < length f \<Longrightarrow> 0 < row \<Longrightarrow>
   fold (\<lambda>col g. g[row := (g ! row)[col := g ! (row - 1) ! col]]) xs f =
   f[row := fold (\<lambda>col r. r[col := f ! (row - 1) ! col]) xs (f ! row)]"
  by (induction xs arbitrary: f) simp_all

lemma copy_row_eq:
  assumes "row < length f" "0 < row" "length (f ! row) = 10" "length (f ! (row - 1)) = 10"
  shows "copy_row row f = f[row := f ! (row - 1)]"
proof -
  have "fold (\<lambda>col r. r[col := f ! (row - 1) ! col]) [0..<10] (f ! row) = map (\<lambda>col. f ! (row - 1) ! col) [0..<10]"
    using fold_row_all[of "f ! row" 10 "\<lambda>col. f ! (row - 1) ! col"] assms(3) by simp
  also have "\<dots> = f ! (row - 1)"
    using map_nth[of "f ! (row - 1)"] assms(4) by simp
  finally have r: "fold (\<lambda>col r. r[col := f ! (row - 1) ! col]) [0..<10] (f ! row) = f ! (row - 1)" .
  show ?thesis
    unfolding copy_row_def using fold_copy_row[OF assms(1,2), of "[0..<10]"] r by simp
qed

lemma wf_field_nth: "wf_field f \<Longrightarrow> k < 20 \<Longrightarrow> length (f ! k) = 10"
  by (simp add: wf_field_def)

lemma wf_field_length: "wf_field f \<Longrightarrow> length f = 20"
  by (simp add: wf_field_def)

lemma wf_field_update: "wf_field f \<Longrightarrow> length r = 10 \<Longrightarrow> wf_field (f[k := r])"
  by (auto simp: wf_field_def dest!: set_update_subset_insert[THEN subsetD])

lemma shift_rows:
  assumes "wf_field f" "y < 20"
  shows "fold copy_row (rev [1..<Suc y]) f = f ! 0 # take y f @ drop (Suc y) f"
  using assms
proof (induction y arbitrary: f)
  case 0
  then have "f \<noteq> []" by (auto simp: wf_field_def)
  then show ?case by (cases f) simp_all
next
  case (Suc y)
  let ?f' = "f[Suc y := f ! y]"
  have len: "length f = 20" using Suc.prems(1) by (rule wf_field_length)
  have cr: "copy_row (Suc y) f = ?f'"
    using copy_row_eq[of "Suc y" f] Suc.prems len by (simp add: wf_field_nth)
  have wf': "wf_field ?f'"
    using Suc.prems by (intro wf_field_update) (simp_all add: wf_field_nth)
  have "fold copy_row (rev [1..<Suc (Suc y)]) f = fold copy_row (rev [1..<Suc y]) ?f'"
    by (simp add: cr)
  also have "\<dots> = ?f' ! 0 # take y ?f' @ drop (Suc y) ?f'"
    using Suc.IH[OF wf'] Suc.prems(2) by simp
  also have "\<dots> = f ! 0 # take y f @ (f ! y # drop (Suc (Suc y)) f)"
  proof -
    have "drop (Suc y) ?f' = (drop (Suc y) f)[0 := f ! y]"
      by (simp add: drop_update_swap)
    also have "drop (Suc y) f = f ! Suc y # drop (Suc (Suc y)) f"
      using Suc.prems(2) len by (simp add: Cons_nth_drop_Suc)
    finally have "drop (Suc y) ?f' = f ! y # drop (Suc (Suc y)) f" by simp
    then show ?thesis by simp
  qed
  also have "\<dots> = f ! 0 # take (Suc y) f @ drop (Suc (Suc y)) f"
    using Suc.prems(2) len by (simp add: take_Suc_conv_app_nth)
  finally show ?case .
qed

lemma wf_field_cleared: "wf_field f \<Longrightarrow> y < 20 \<Longrightarrow> wf_field (cleared f y)"
  by (auto simp: wf_field_def cleared_def dest: in_set_takeD in_set_dropD)

lemma clear_and_shift:
  assumes "wf_field f" "y < 20"
  shows "copyStr (cleanStr f y) y = cleared f y"
proof -
  let ?g = "f[y := replicate 10 0]"
  have len: "length f = 20" using assms(1) by (rule wf_field_length)
  have c: "cleanStr f y = ?g"
    using assms len by (simp add: cleanStr_eq wf_field_nth)
  have wg: "wf_field ?g" using assms(1) by (rule wf_field_update) simp
  have s: "fold copy_row (rev [1..<Suc y]) ?g = ?g ! 0 # take y f @ drop (Suc y) f"
    using shift_rows[OF wg assms(2)] by simp
  let ?h = "?g ! 0 # take y f @ drop (Suc y) f"
  have "fold (\<lambda>col g. g[0 := (g ! 0)[col := 0]]) [0..<10] ?h = ?h[0 := fold (\<lambda>x r. r[x := 0]) [0..<10] (?h ! 0)]"
    by (rule fold_cell_row) simp
  also have "fold (\<lambda>x r. r[x := 0]) [0..<10] (?h ! 0) = map (\<lambda>_. 0) [0..<10]"
    using fold_row_all[of "?g ! 0" 10 "\<lambda>_. 0"] wf_field_nth[OF wg, of 0] by simp
  also have "\<dots> = replicate 10 0" by (simp add: map_replicate_const)
  finally have "fold (\<lambda>col g. g[0 := (g ! 0)[col := 0]]) [0..<10] ?h = cleared f y"
    by (simp add: cleared_def)
  moreover have "copyStr (cleanStr f y) y = fold (\<lambda>col g. g[0 := (g ! 0)[col := 0]]) [0..<10] ?h"
    unfolding copyStr_def c s by simp
  ultimately show ?thesis by simp
qed

lemma full_check_iff:
  assumes "length (f ! y) = 10"
  shows "full_check f y = 10 \<longleftrightarrow> row_full (f ! y)"
proof -
  have "length (filter (\<lambda>x. f ! y ! x \<noteq> 0) [0..<10]) = 10 \<longleftrightarrow> (\<forall>x\<in>set [0..<10]. f ! y ! x \<noteq> 0)"
    using sum_length_filter_compl[of "\<lambda>x. f ! y ! x \<noteq> 0" "[0..<10]"]
    by (auto simp: filter_empty_conv)
  also have "\<dots> \<longleftrightarrow> row_full (f ! y)"
    using assms by (auto simp: row_full_def all_set_conv_all_nth)
  finally show ?thesis by (simp add: full_check_def)
qed

lemma not_full_zero_row: "\<not> row_full (replicate 10 0)"
  by (simp add: row_full_def)

lemma clear_rows_counts:
  assumes "wf_field f" "- 1 \<le> y" "y < 20"
  shows "\<exists>f'. clear_rows f y n =
            Some (f', n + int (length (filter row_full (take (nat (y + 1)) f)))) \<and> wf_field f'"
  using assms
proof (induction "length (filter row_full (take (nat (y + 1)) f)) + nat (y + 1)"
       arbitrary: f y n rule: less_induct)
  case less
  show ?case
  proof (cases "y < 0")
    case True
    then show ?thesis using less.prems by (subst clear_rows.simps) simp
  next
    case False
    then have y0: "0 \<le> y" by simp
    define k where "k = nat y"
    have k: "k < 20" "int k = y" "nat (y + 1) = Suc k" "nat y = k" "nat (y - 1 + 1) = k"
      using y0 less.prems(3) by (simp_all add: k_def)
    have len: "length f = 20" using less.prems(1) by (rule wf_field_length)
    have tk: "take (Suc k) f = take k f @ [f ! k]"
      using k(1) len by (simp add: take_Suc_conv_app_nth)
    have fc: "full_check f k = 10 \<longleftrightarrow> row_full (f ! k)"
      using less.prems(1) k(1) by (intro full_check_iff) (simp add: wf_field_nth)
    show ?thesis
    proof (cases "row_full (f ! k)")
      case True
      let ?f' = "cleared f k"
      have wf': "wf_field ?f'" using less.prems(1) k(1) by (rule wf_field_cleared)
      have tk': "filter row_full (take (Suc k) ?f') = filter row_full (take k f)"
        using k(1) len by (simp add: cleared_def not_full_zero_row)
      have cnt: "length (filter row_full (take (Suc k) f)) = Suc (length (filter row_full (take k f)))"
        using True by (simp add: tk)
      have "\<exists>f''. clear_rows ?f' y (n + 1) =
            Some (f'', (n + 1) + int (length (filter row_full (take (nat (y + 1)) ?f')))) \<and> wf_field f''"
        by (rule less.hyps) (use wf' less.prems k cnt tk' in simp_all)
      then obtain f'' where "clear_rows ?f' y (n + 1) =
            Some (f'', (n + 1) + int (length (filter row_full (take (Suc k) ?f'))))" "wf_field f''"
        using k(3) by auto
      moreover have "clear_rows f y n = clear_rows ?f' y (n + 1)"
        using y0 True fc clear_and_shift[OF less.prems(1) k(1)]
        by (subst clear_rows.simps) (simp add: k_def)
      ultimately show ?thesis by (auto simp: k(3) tk' cnt)
    next
      case False
      have cnt: "length (filter row_full (take (Suc k) f)) = length (filter row_full (take k f))"
        using False by (simp add: tk)
      have "\<exists>f'. clear_rows f (y - 1) n =
            Some (f', n + int (length (filter row_full (take (nat (y - 1 + 1)) f)))) \<and> wf_field f'"
        by (rule less.hyps) (use less.prems k cnt y0 in simp_all)
      moreover have "nat (y - 1 + 1) = k" by (simp add: k_def)
      moreover have "clear_rows f y n = clear_rows f (y - 1) n"
        using y0 False fc by (subst clear_rows.simps) (simp add: k_def)
      ultimately show ?thesis by (auto simp: k(3) cnt)
    qed
  qed
qed

lemma clear_rows_all:
  assumes "wf_field f"
  shows "\<exists>f'. clear_rows f 19 0 = Some (f', int (full_rows f)) \<and> wf_field f'"
  using clear_rows_counts[OF assms, of 19 0] wf_field_length[OF assms] by (simp add: full_rows_def)

lemma updateCurrentGameInfo_eq:
  assumes "wf_field (field (game_info p))"
  shows "\<exists>f'. wf_field f' \<and> updateCurrentGameInfo p =
           Some (if full_rows (field (game_info p)) \<noteq> 0
                 then updateInfo (p\<lparr>game_info := (game_info p)\<lparr>field := f'\<rparr>\<rparr>) (int (full_rows (field (game_info p))))
                 else p\<lparr>game_info := (game_info p)\<lparr>field := f'\<rparr>\<rparr>)"
proof -
  obtain f' where "clear_rows (field (game_info p)) 19 0 = Some (f', int (full_rows (field (game_info p))))"
    "wf_field f'"
    using clear_rows_all[OF assms] by blast
  then show ?thesis
    by (intro exI[of _ f']) (simp add: updateCurrentGameInfo_def)
qed




section \<open>Moves\<close>

lemma canPlacePiece_cell:
  assumes "canPlacePiece p = 1" "i < 4" "j < 4"
  shows "shape (currentPiece p) ! i ! j \<noteq> 0 \<longrightarrow>
         0 \<le> posX (currentPiece p) + int j \<and> posX (currentPiece p) + int j < 10 \<and>
         0 \<le> posY (currentPiece p) + int i \<and> posY (currentPiece p) + int i < 20 \<and>
         field (game_info p) ! nat (posY (currentPiece p) + int i) ! nat (posX (currentPiece p) + int j) = 0"
proof -
  have "\<not> place_blocked p (i, j)"
    using assms(1-3) by (auto simp: canPlacePiece_iff split: if_splits)
  then show ?thesis by (auto simp: place_blocked_def Let_def)
qed

lemma scan_result:
  assumes "scan blocked \<noteq> None"
  shows "scan blocked = Some (if \<forall>i<4. \<forall>j<4. blocked (i, j) = Some False then 1 else 0)"
proof -
  have ok: "blocked (i, j) \<noteq> None" if "i < 4" "j < 4" for i j
    using assms that by (auto simp: scan_eq split: if_splits)
  have "(\<exists>i<4. \<exists>j<4. blocked (i, j) = Some True) \<longleftrightarrow> \<not> (\<forall>i<4. \<forall>j<4. blocked (i, j) = Some False)"
    using ok by (metis option.exhaust option.inject)
  then show ?thesis using ok by (simp add: scan_eq)
qed

lemma left_blocked_False:
  assumes "left_blocked p (posX (currentPiece p) - 1) (i, j) \<noteq> None"
  shows "left_blocked p (posX (currentPiece p) - 1) (i, j) = Some False \<longleftrightarrow>
     (shape (currentPiece p) ! i ! j \<noteq> 0 \<longrightarrow>
      0 \<le> posX (currentPiece p) - 1 + int j \<and>
      field (game_info p) ! nat (posY (currentPiece p) + int i) ! nat (posX (currentPiece p) - 1 + int j) = 0)"
  using assms by (auto simp: left_blocked_def Let_def field_at_def split: if_splits)

lemma right_blocked_False:
  assumes "right_blocked p (posX (currentPiece p) + 1) (i, j) \<noteq> None"
  shows "right_blocked p (posX (currentPiece p) + 1) (i, j) = Some False \<longleftrightarrow>
     (shape (currentPiece p) ! i ! j \<noteq> 0 \<longrightarrow>
      posX (currentPiece p) + 1 + int j < FIELD_WIDTH \<and>
      field (game_info p) ! nat (posY (currentPiece p) + int i) ! nat (posX (currentPiece p) + 1 + int j) = 0)"
  using assms by (auto simp: right_blocked_def Let_def field_at_def split: if_splits)

lemma down_blocked_False:
  assumes "down_blocked p (posY (currentPiece p) + 1) (i, j) \<noteq> None"
  shows "down_blocked p (posY (currentPiece p) + 1) (i, j) = Some False \<longleftrightarrow>
     (shape (currentPiece p) ! i ! j \<noteq> 0 \<longrightarrow>
      posY (currentPiece p) + 1 + int i < FIELD_HEIGHT \<and>
      field (game_info p) ! nat (posY (currentPiece p) + 1 + int i) ! nat (posX (currentPiece p) + int j) = 0)"
  using assms by (auto simp: down_blocked_def Let_def field_at_def split: if_splits)

lemma scan_defined_cells:
  "scan blocked \<noteq> None \<Longrightarrow> i < 4 \<Longrightarrow> j < 4 \<Longrightarrow> blocked (i, j) \<noteq> None"
  by (auto simp: scan_eq split: if_splits)

lemma left_scan_result:
  assumes "scan (left_blocked p (posX (currentPiece p) - 1)) \<noteq> None"
  shows "scan (left_blocked p (posX (currentPiece p) - 1)) = Some (if left_ok p then 1 else 0)"
  unfolding scan_result[OF assms] left_ok_def
  using left_blocked_False[OF scan_defined_cells[OF assms]] by simp

lemma right_scan_result:
  assumes "scan (right_blocked p (posX (currentPiece p) + 1)) \<noteq> None"
  shows "scan (right_blocked p (posX (currentPiece p) + 1)) = Some (if right_ok p then 1 else 0)"
  unfolding scan_result[OF assms] right_ok_def
  using right_blocked_False[OF scan_defined_cells[OF assms]] by simp

lemma down_scan_result:
  assumes "scan (down_blocked p (posY (currentPiece p) + 1)) \<noteq> None"
  shows "scan (down_blocked p (posY (currentPiece p) + 1)) = Some (if down_ok p then 1 else 0)"
  unfolding scan_result[OF assms] down_ok_def
  using down_blocked_False[OF scan_defined_cells[OF assms]] by simp

lemma left_scan_defined:
  assumes "canPlacePiece p = 1"
  shows "scan (left_blocked p (posX (currentPiece p) - 1)) \<noteq> None"
proof -
  have "left_blocked p (posX (currentPiece p) - 1) (i, j) \<noteq> None" if "i < 4" "j < 4" for i j
    using canPlacePiece_cell[OF assms that]
    by (auto simp: left_blocked_def Let_def field_at_def)
  then show ?thesis by (simp add: scan_eq)
qed

lemma right_scan_defined:
  assumes "canPlacePiece p = 1"
  shows "scan (right_blocked p (posX (currentPiece p) + 1)) \<noteq> None"
proof -
  have "right_blocked p (posX (currentPiece p) + 1) (i, j) \<noteq> None" if "i < 4" "j < 4" for i j
    using canPlacePiece_cell[OF assms that]
    by (auto simp: right_blocked_def Let_def field_at_def)
  then show ?thesis by (simp add: scan_eq)
qed

lemma down_scan_defined:
  assumes "canPlacePiece p = 1"
  shows "scan (down_blocked p (posY (currentPiece p) + 1)) \<noteq> None"
proof -
  have "down_blocked p (posY (currentPiece p) + 1) (i, j) \<noteq> None" if "i < 4" "j < 4" for i j
    using canPlacePiece_cell[OF assms that]
    by (auto simp: down_blocked_def Let_def field_at_def)
  then show ?thesis by (simp add: scan_eq)
qed

lemma moveFigureLeft_eq:
  assumes "moveFigureLeft p \<noteq> None"
  shows "moveFigureLeft p =
     Some (if left_ok p then (1, p\<lparr>currentPiece := (currentPiece p)\<lparr>posX := posX (currentPiece p) - 1\<rparr>\<rparr>)
           else (0, p))"
proof -
  have "scan (left_blocked p (posX (currentPiece p) - 1)) \<noteq> None"
    using assms by (auto simp: moveFigureLeft_def Let_def split: option.splits)
  from left_scan_result[OF this] show ?thesis
    by (simp add: moveFigureLeft_def Let_def)
qed

lemma moveFigureRight_eq:
  assumes "moveFigureRight p \<noteq> None"
  shows "moveFigureRight p =
     Some (if right_ok p then (1, p\<lparr>currentPiece := (currentPiece p)\<lparr>posX := posX (currentPiece p) + 1\<rparr>\<rparr>)
           else (0, p))"
proof -
  have "scan (right_blocked p (posX (currentPiece p) + 1)) \<noteq> None"
    using assms by (auto simp: moveFigureRight_def Let_def split: option.splits)
  from right_scan_result[OF this] show ?thesis
    by (simp add: moveFigureRight_def Let_def)
qed

lemma moveFigureDown_eq:
  assumes "moveFigureDown p \<noteq> None"
  shows "moveFigureDown p =
     Some (if down_ok p then (1, p\<lparr>currentPiece := (currentPiece p)\<lparr>posY := posY (currentPiece p) + 1\<rparr>\<rparr>)
           else (0, p))"
proof -
  have "scan (down_blocked p (posY (currentPiece p) + 1)) \<noteq> None"
    using assms by (auto simp: moveFigureDown_def Let_def split: option.splits)
  from down_scan_result[OF this] show ?thesis
    by (simp add: moveFigureDown_def Let_def)
qed

lemma moveFigureLeft_defined: "canPlacePiece p = 1 \<Longrightarrow> moveFigureLeft p \<noteq> None"
  using left_scan_defined[of p] by (auto simp: moveFigureLeft_def Let_def)

lemma moveFigureRight_defined: "canPlacePiece p = 1 \<Longrightarrow> moveFigureRight p \<noteq> None"
  using right_scan_defined[of p] by (auto simp: moveFigureRight_def Let_def)

lemma moveFigureDown_defined: "canPlacePiece p = 1 \<Longrightarrow> moveFigureDown p \<noteq> None"
  using down_scan_defined[of p] by (auto simp: moveFigureDown_def Let_def)


text \<open>
  Claim C5. A piece that is legally placed can be moved in each direction
  without reading outside the field. Whenever a move returns, it returns 1 and
  commits the candidate coordinate if every occupied cell at the candidate
  position passes the bound of the direction (\<open>x \<ge> 0\<close> to the left, \<open>x < 10\<close> to the
  right, \<open>y < 20\<close> downwards) and lies on an empty field cell; otherwise it returns
  0 and the whole game state, the piece included, is unchanged.
\<close>

theorem moves_commit_iff_candidate_free:
  "(canPlacePiece p = 1 \<longrightarrow>
      moveFigureLeft p \<noteq> None \<and> moveFigureRight p \<noteq> None \<and> moveFigureDown p \<noteq> None)
   \<and> (moveFigureLeft p \<noteq> None \<longrightarrow> moveFigureLeft p =
        Some (if left_ok p
              then (1, p\<lparr>currentPiece := (currentPiece p)\<lparr>posX := posX (currentPiece p) - 1\<rparr>\<rparr>)
              else (0, p)))
   \<and> (moveFigureRight p \<noteq> None \<longrightarrow> moveFigureRight p =
        Some (if right_ok p
              then (1, p\<lparr>currentPiece := (currentPiece p)\<lparr>posX := posX (currentPiece p) + 1\<rparr>\<rparr>)
              else (0, p)))
   \<and> (moveFigureDown p \<noteq> None \<longrightarrow> moveFigureDown p =
        Some (if down_ok p
              then (1, p\<lparr>currentPiece := (currentPiece p)\<lparr>posY := posY (currentPiece p) + 1\<rparr>\<rparr>)
              else (0, p)))"
  using moveFigureLeft_defined[of p] moveFigureRight_defined[of p] moveFigureDown_defined[of p]
    moveFigureLeft_eq[of p] moveFigureRight_eq[of p] moveFigureDown_eq[of p]
  by blast

lemma T_start_sel:
  "currentPiece T_start = piece_at 2 3 0" "field (game_info T_start) = initMatrix 20 10"
  by (simp_all add: T_start_def game_with_def)

lemma T_canPlace: "canPlacePiece T_start = 1"
  by (simp add: canPlacePiece_iff place_blocked_def ex_less_4 T_start_sel piece_at_sel pieces_def initMatrix_def)

lemma T_left_ok: "left_ok T_start"
  by (simp add: left_ok_def all_less_4 T_start_sel piece_at_sel pieces_def initMatrix_def)

lemma O_wall_sel:
  "currentPiece O_wall = piece_at 1 8 0" "field (game_info O_wall) = initMatrix 20 10"
  by (simp_all add: O_wall_def game_with_def)

lemma O_wall_canPlace: "canPlacePiece O_wall = 1"
  by (simp add: canPlacePiece_iff place_blocked_def ex_less_4 O_wall_sel piece_at_sel pieces_def initMatrix_def)

lemma O_wall_right_blocked: "\<not> right_ok O_wall"
  by (simp add: right_ok_def all_less_4 O_wall_sel piece_at_sel pieces_def initMatrix_def)

theorem moves_commit_iff_candidate_free_witness:
  "canPlacePiece T_start = 1 \<and> left_ok T_start \<and>
   moveFigureLeft T_start = Some (1, T_start\<lparr>currentPiece := (currentPiece T_start)\<lparr>posX := 2\<rparr>\<rparr>) \<and>
   canPlacePiece O_wall = 1 \<and> \<not> right_ok O_wall \<and> moveFigureRight O_wall = Some (0, O_wall)"
  using moves_commit_iff_candidate_free[of T_start] T_canPlace T_left_ok
    moves_commit_iff_candidate_free[of O_wall] O_wall_canPlace O_wall_right_blocked
  by (simp add: T_start_sel piece_at_sel)

section \<open>Rotation\<close>

lemma rotate_temp_eq:
  "rotate_temp s =
     [[s ! 3 ! 0, s ! 2 ! 0, s ! 1 ! 0, s ! 0 ! 0],
      [s ! 3 ! 1, s ! 2 ! 1, s ! 1 ! 1, s ! 0 ! 1],
      [s ! 3 ! 2, s ! 2 ! 2, s ! 1 ! 2, s ! 0 ! 2],
      [s ! 3 ! 3, s ! 2 ! 3, s ! 1 ! 3, s ! 0 ! 3]]"
  by (simp add: rotate_temp_def cells_eq numeral_eq_Suc)

lemma copyPieceShape_eq:
  "copyPieceShape s =
     [[s ! 0 ! 0, s ! 0 ! 1, s ! 0 ! 2, s ! 0 ! 3],
      [s ! 1 ! 0, s ! 1 ! 1, s ! 1 ! 2, s ! 1 ! 3],
      [s ! 2 ! 0, s ! 2 ! 1, s ! 2 ! 2, s ! 2 ! 3],
      [s ! 3 ! 0, s ! 3 ! 1, s ! 3 ! 2, s ! 3 ! 3]]"
  by (simp add: copyPieceShape_def upt_rec[of _ 4] upt_rec[of _ "Suc _"] numeral_eq_Suc)

lemma len4: "length xs = 4 \<Longrightarrow> xs = [xs ! 0, xs ! 1, xs ! 2, xs ! 3]"
  by (auto simp: numeral_eq_Suc length_Suc_conv)

lemma copyPieceShape_id: "wf_shape s \<Longrightarrow> copyPieceShape s = s"
proof -
  assume w: "wf_shape s"
  then have l: "length s = 4" and r: "\<And>i. i < 4 \<Longrightarrow> length (s ! i) = 4"
    by (auto simp: wf_shape_def)
  have "s = [s ! 0, s ! 1, s ! 2, s ! 3]" by (rule len4[OF l])
  moreover have "s ! 0 = [s ! 0 ! 0, s ! 0 ! 1, s ! 0 ! 2, s ! 0 ! 3]" by (rule len4[OF r]) simp
  moreover have "s ! 1 = [s ! 1 ! 0, s ! 1 ! 1, s ! 1 ! 2, s ! 1 ! 3]" by (rule len4[OF r]) simp
  moreover have "s ! 2 = [s ! 2 ! 0, s ! 2 ! 1, s ! 2 ! 2, s ! 2 ! 3]" by (rule len4[OF r]) simp
  moreover have "s ! 3 = [s ! 3 ! 0, s ! 3 ! 1, s ! 3 ! 2, s ! 3 ! 3]" by (rule len4[OF r]) simp
  ultimately show ?thesis unfolding copyPieceShape_eq by metis
qed

lemma rotateShape_eq:
  "rotateShape s =
     [[s ! 3 ! 0, s ! 2 ! 0, s ! 1 ! 0, s ! 0 ! 0],
      [s ! 3 ! 1, s ! 2 ! 1, s ! 1 ! 1, s ! 0 ! 1],
      [s ! 3 ! 2, s ! 2 ! 2, s ! 1 ! 2, s ! 0 ! 2],
      [s ! 3 ! 3, s ! 2 ! 3, s ! 1 ! 3, s ! 0 ! 3]]"
  by (simp add: rotateShape_def rotate_temp_eq copyPieceShape_eq)

lemma rotateShape_4: "rotateShape (rotateShape (rotateShape (rotateShape s))) = copyPieceShape s"
  by (simp add: rotateShape_eq copyPieceShape_eq)

lemma wf_shape_rotateShape: "wf_shape (rotateShape s)"
  by (simp add: rotateShape_eq wf_shape_def)

lemma wf_shape_copyPieceShape: "wf_shape (copyPieceShape s)"
  by (simp add: copyPieceShape_eq wf_shape_def)

lemma copyPieceShape_nth: "i < 4 \<Longrightarrow> j < 4 \<Longrightarrow> copyPieceShape s ! i ! j = s ! i ! j"
  by (simp add: copyPieceShape_def)

lemma findMinXY_cong:
  assumes "\<And>i j. i < 4 \<Longrightarrow> j < 4 \<Longrightarrow> s ! i ! j = t ! i ! j"
  shows "findMinXY s = findMinXY t"
  unfolding findMinXY_def
  by (rule fold_cong) (auto simp: set_cells assms)

lemma findMinXY_copy: "findMinXY (copyPieceShape s) = findMinXY s"
  by (rule findMinXY_cong) (rule copyPieceShape_nth)

lemma adjust_pos:
  "adjustPositionForLine p =
     p\<lparr>currentPiece := (currentPiece p)\<lparr>posX := posX (currentPiece p) + fst (line_nudge (currentPiece p)),
                                       posY := posY (currentPiece p) + snd (line_nudge (currentPiece p))\<rparr>\<rparr>"
  by (simp add: adjustPositionForLine_def line_nudge_def Let_def)

lemma rotated_piece_upd:
  "pc\<lparr>shape := rotateShape (shape pc),
      posX := posX pc + (fst (findMinXY (shape pc)) - fst (findMinXY (rotateShape (shape pc)))) + fst (line_nudge pc),
      posY := posY pc + (snd (findMinXY (shape pc)) - snd (findMinXY (rotateShape (shape pc)))) + snd (line_nudge pc)\<rparr>
   = (rotated_piece pc)\<lparr>rotation := rotation pc\<rparr>"
  by (simp add: rotated_piece_def)

lemma line_nudge_upd [simp]:
  "line_nudge (pc\<lparr>shape := s\<rparr>) = line_nudge pc"
  "line_nudge (pc\<lparr>posX := x\<rparr>) = line_nudge pc"
  "line_nudge (pc\<lparr>posY := y\<rparr>) = line_nudge pc"
  by (simp_all add: line_nudge_def)

lemma rotatePiece_cases:
  "rotatePiece p =
     (if canRotate p = 0 then (0, p)
      else if type (currentPiece p) = 1 then (1, p)
      else if canPlacePiece (p\<lparr>currentPiece := (rotated_piece (currentPiece p))\<lparr>rotation := rotation (currentPiece p)\<rparr>\<rparr>) = 0
      then (0, p\<lparr>currentPiece := (currentPiece p)\<lparr>shape := copyPieceShape (copyPieceShape (shape (currentPiece p)))\<rparr>\<rparr>)
      else (1, p\<lparr>currentPiece := rotated_piece (currentPiece p)\<rparr>))"
proof -
  let ?cur = "currentPiece p"
  have *: "adjustPositionForLine
        (p\<lparr>currentPiece := ?cur\<lparr>shape := rotateShape (shape ?cur),
           posX := posX ?cur + (fst (findMinXY (shape ?cur)) - fst (findMinXY (rotateShape (shape ?cur)))),
           posY := posY ?cur + (snd (findMinXY (shape ?cur)) - snd (findMinXY (rotateShape (shape ?cur))))\<rparr>\<rparr>)
      = p\<lparr>currentPiece := (rotated_piece ?cur)\<lparr>rotation := rotation ?cur\<rparr>\<rparr>"
    by (simp add: adjust_pos rotated_piece_def)
  show ?thesis
    unfolding rotatePiece_def
    apply (simp only: Let_def split_beta findMinXY_copy)
    apply (simp add: * split del: if_split cong: if_cong)
    apply (simp add: rotated_piece_def)
    done
qed

text \<open>
  Claim C6, as the code has it. For the O-piece (type 1) a rotation request
  leaves the whole game state unchanged, and it returns 1 if and only if the
  pre-check \<^verbatim>\<open>canRotate\<close> passes, that is, no occupied cell of the template
  turned in its 4x4 box lies outside the field or on an occupied cell.
\<close>

theorem O_rotation_gated_by_canRotate:
  assumes "type (currentPiece p) = 1"
  shows "rotatePiece p = (if \<exists>i<4. \<exists>j<4. rotate_blocked p (i, j) then 0 else 1, p)"
  using assms by (simp add: rotatePiece_cases canRotate_iff)

theorem O_rotation_gated_by_canRotate_witness:
  "type (currentPiece O_start) = 1 \<and> rotatePiece O_start = (1, O_start)"
  using O_rotation_gated_by_canRotate[of O_start]
  by (simp add: O_start_def game_with_sel piece_at_sel rotate_blocked_def rotate_temp_eq ex_less_4
      pieces_def initMatrix_def)

text \<open>
  The O-piece in columns 8 and 9 of the empty field is legally placed, and the
  rotation request returns 0: the turned template would occupy columns 10 and 11.
\<close>

theorem O_rotation_fails_at_wall:
  "type (currentPiece O_wall) = 1 \<and> canPlacePiece O_wall = 1 \<and> fst (rotatePiece O_wall) = 0"
  by (simp add: rotatePiece_cases canRotate_iff canPlacePiece_iff place_blocked_def
      O_wall_def game_with_sel piece_at_sel rotate_blocked_def rotate_temp_eq ex_less_4
      pieces_def initMatrix_def)

lemma c_mod_2_even: "c_mod r 2 = 0 \<longleftrightarrow> even r"
proof
  assume "c_mod r 2 = 0"
  then have "r = 2 * c_div r 2" by (simp add: c_mod_def)
  then show "even r" by (metis dvd_triv_left)
next
  assume "even r"
  then obtain k where k: "r = 2 * k" by (auto elim: evenE)
  have "c_div (2 * k) 2 = k"
    by (simp add: c_div_def abs_mult sgn_mult mult_sgn_abs)
  then show "c_mod r 2 = 0" by (simp add: c_mod_def k)
qed

lemma even_c_mod_4: "even (c_mod a 4) \<longleftrightarrow> even a"
  by (simp add: c_mod_def)

lemma rotated_piece_sel:
  "shape (rotated_piece pc) = rotateShape (shape pc)"
  "type (rotated_piece pc) = type pc"
  "rotation (rotated_piece pc) = c_mod (rotation pc + 1) 4"
  "posX (rotated_piece pc) = posX pc + (fst (findMinXY (shape pc)) - fst (findMinXY (rotateShape (shape pc)))) + fst (line_nudge pc)"
  "posY (rotated_piece pc) = posY pc + (snd (findMinXY (shape pc)) - snd (findMinXY (rotateShape (shape pc)))) + snd (line_nudge pc)"
  by (simp_all add: rotated_piece_def)

lemma line_nudge_rotated:
  "fst (line_nudge (rotated_piece pc)) = - fst (line_nudge pc)"
  "snd (line_nudge (rotated_piece pc)) = - snd (line_nudge pc)"
  by (simp_all add: line_nudge_def rotated_piece_sel c_mod_2_even even_c_mod_4)

lemma rotated_piece_4:
  assumes "wf_shape (shape pc)"
  shows "shape (rotated_piece (rotated_piece (rotated_piece (rotated_piece pc)))) = shape pc"
    and "posX (rotated_piece (rotated_piece (rotated_piece (rotated_piece pc)))) = posX pc"
    and "posY (rotated_piece (rotated_piece (rotated_piece (rotated_piece pc)))) = posY pc"
  using copyPieceShape_id[OF assms]
  by (simp_all add: rotated_piece_sel line_nudge_rotated rotateShape_4 findMinXY_copy)

lemma rotatePiece_success:
  assumes "rotatePiece p = (1, p')"
  shows "p' = (if type (currentPiece p) = 1 then p else p\<lparr>currentPiece := rotated_piece (currentPiece p)\<rparr>)"
  using assms by (auto simp: rotatePiece_cases split: if_splits)

lemma rotatePiece_success_piece:
  assumes "rotatePiece p = (1, p')"
  shows "currentPiece p' = (if type (currentPiece p) = 1 then currentPiece p else rotated_piece (currentPiece p))"
  using rotatePiece_success[OF assms] by simp

text \<open>
  Claim C7. If four consecutive calls of \<^verbatim>\<open>rotatePiece\<close> all return 1, the
  piece has its original 4x4 template and its original position afterwards,
  whatever its type; for the I-piece the four nudges cancel.
\<close>

theorem four_rotations_identity:
  assumes "wf_shape (shape (currentPiece p0))"
    and "rotatePiece p0 = (1, p1)" and "rotatePiece p1 = (1, p2)"
    and "rotatePiece p2 = (1, p3)" and "rotatePiece p3 = (1, p4)"
  shows "shape (currentPiece p4) = shape (currentPiece p0)
       \<and> posX (currentPiece p4) = posX (currentPiece p0)
       \<and> posY (currentPiece p4) = posY (currentPiece p0)"
proof (cases "type (currentPiece p0) = 1")
  case True
  then show ?thesis
    using rotatePiece_success[OF assms(2)] rotatePiece_success[OF assms(3)]
      rotatePiece_success[OF assms(4)] rotatePiece_success[OF assms(5)]
    by simp
next
  case False
  then have "currentPiece p4 = rotated_piece (rotated_piece (rotated_piece (rotated_piece (currentPiece p0))))"
    using rotatePiece_success_piece[OF assms(2)] rotatePiece_success_piece[OF assms(3)]
      rotatePiece_success_piece[OF assms(4)] rotatePiece_success_piece[OF assms(5)]
    by (simp add: rotated_piece_sel)
  then show ?thesis using rotated_piece_4[OF assms(1)] by simp
qed

lemma findMinXY_unfold:
  "findMinXY s = fold (\<lambda>(i, j) (minX, minY).
             if s ! i ! j \<noteq> 0
             then (if int j < minX then int j else minX, if int i < minY then int i else minY)
             else (minX, minY))
          [(0,0),(0,1),(0,2),(0,3),(1,0),(1,1),(1,2),(1,3),(2,0),(2,1),(2,2),(2,3),(3,0),(3,1),(3,2),(3,3)] (4, 4)"
  by (simp add: findMinXY_def cells_eq)

lemmas eval_rot = rotatePiece_cases canRotate_iff canPlacePiece_iff place_blocked_def rotate_blocked_def
  rotate_temp_eq rotateShape_eq rotated_piece_def line_nudge_def c_mod_def c_div_def findMinXY_unfold
  ex_less_4 game_with_def initMatrix_def

lemma I_rot_0: "rotatePiece (I_rot 0) = (1, I_rot 1)"
  by (simp add: I_rot_def eval_rot)

lemma I_rot_1: "rotatePiece (I_rot 1) = (1, I_rot 2)"
  by (simp add: I_rot_def eval_rot)

lemma I_rot_2: "rotatePiece (I_rot 2) = (1, I_rot 3)"
  by (simp add: I_rot_def eval_rot)

lemma I_rot_3: "rotatePiece (I_rot 3) = (1, I_rot 0)"
  by (simp add: I_rot_def eval_rot)

theorem four_rotations_identity_witness:
  "wf_shape (shape (currentPiece (I_rot 0)))
   \<and> rotatePiece (I_rot 0) = (1, I_rot 1) \<and> rotatePiece (I_rot 1) = (1, I_rot 2)
   \<and> rotatePiece (I_rot 2) = (1, I_rot 3) \<and> rotatePiece (I_rot 3) = (1, I_rot 0)
   \<and> posX (currentPiece (I_rot 1)) = 2 \<and> posX (currentPiece (I_rot 0)) = 3"
  using four_rotations_identity[OF _ I_rot_0 I_rot_1 I_rot_2 I_rot_3] I_rot_0 I_rot_1 I_rot_2 I_rot_3
  by (simp add: I_rot_def game_with_def wf_shape_def)

section \<open>Spawning\<close>

lemma canPlacePiece_legal:
  "canPlacePiece p = (if placed_legally (field (game_info p)) (currentPiece p) then 1 else 0)"
proof -
  have "place_blocked p (i, j) \<longleftrightarrow>
      \<not> (shape (currentPiece p) ! i ! j \<noteq> 0 \<longrightarrow>
      0 \<le> posX (currentPiece p) + int j \<and> posX (currentPiece p) + int j < FIELD_WIDTH \<and>
      0 \<le> posY (currentPiece p) + int i \<and> posY (currentPiece p) + int i < FIELD_HEIGHT \<and>
      field (game_info p) ! nat (posY (currentPiece p) + int i) ! nat (posX (currentPiece p) + int j) = 0)" for i j
    by (auto simp: place_blocked_def Let_def)
  then show ?thesis
    by (simp add: canPlacePiece_iff placed_legally_def)
qed

lemma spawn_pos: "c_div FIELD_WIDTH 2 - c_div 4 2 = 3"
  by (simp add: c_div_def)

lemma wf_pieces: "k < 7 \<Longrightarrow> wf_shape (pieces ! k)"
proof -
  assume "k < 7"
  then have "k = 0 \<or> k = 1 \<or> k = 2 \<or> k = 3 \<or> k = 4 \<or> k = 5 \<or> k = 6" by arith
  then show ?thesis by (auto simp: pieces_def wf_shape_def)
qed

lemma T_start_next: "nextPiece T_start = piece_at 1 3 0"
  by (simp add: T_start_def game_with_sel)

lemma spawn_normal_eq:
  assumes "wf_shape (shape (nextPiece p))"
  shows "spawnNewPiece p False rnd =
     (if placed_legally (field (game_info p)) (spawned (nextPiece p))
      then (1, p\<lparr>currentPiece := spawned (nextPiece p), nextPiece := drawn rnd,
                  game_info := (game_info p)\<lparr>next' := preview (drawn rnd)\<rparr>\<rparr>)
      else (0, p\<lparr>currentPiece := spawned (nextPiece p)\<rparr>))"
proof -
  have cur: "(currentPiece p)\<lparr>shape := copyPieceShape (shape (nextPiece p)),
                type := type (nextPiece p), rotation := 0, posX := 3, posY := 0\<rparr> = spawned (nextPiece p)"
    by (simp add: spawned_def copyPieceShape_id[OF assms])
  have nx: "\<lparr>shape = copyPieceShape (pieces ! (rnd mod 7)), posX = 3, posY = 0,
             type = int (rnd mod 7), rotation = 0\<rparr> = drawn rnd"
    by (simp add: drawn_def copyPieceShape_id[OF wf_pieces])
  show ?thesis
    unfolding spawnNewPiece_def
    by (simp add: Let_def spawn_pos cur nx canPlacePiece_legal)
qed

text \<open>
  Claim C4. In normal mode \<^verbatim>\<open>spawnNewPiece\<close> makes the current piece the next
  piece's template and type with rotation 0 at \<open>posX = 3\<close>, \<open>posY = 0\<close>; it returns
  1 if that piece is legally placed on the field and 0 otherwise; on 0 the next
  piece and the preview grid are unchanged; the field is never changed.
\<close>

theorem spawn_normal_mode:
  assumes "wf_shape (shape (nextPiece p))"
  shows "currentPiece (snd (spawnNewPiece p False rnd)) =
           \<lparr>shape = shape (nextPiece p), posX = 3, posY = 0, type = type (nextPiece p), rotation = 0\<rparr>
       \<and> fst (spawnNewPiece p False rnd) =
           (if placed_legally (field (game_info p)) (currentPiece (snd (spawnNewPiece p False rnd))) then 1 else 0)
       \<and> (fst (spawnNewPiece p False rnd) = 0 \<longrightarrow>
            nextPiece (snd (spawnNewPiece p False rnd)) = nextPiece p \<and>
            next' (game_info (snd (spawnNewPiece p False rnd))) = next' (game_info p))
       \<and> field (game_info (snd (spawnNewPiece p False rnd))) = field (game_info p)"
  by (simp add: spawn_normal_eq[OF assms] spawned_def)

theorem spawn_normal_mode_witness:
  "wf_shape (shape (nextPiece T_start))
   \<and> spawnNewPiece T_start False 4 =
       (1, T_start\<lparr>currentPiece := spawned (nextPiece T_start), nextPiece := drawn 4,
                  game_info := (game_info T_start)\<lparr>next' := preview (drawn 4)\<rparr>\<rparr>)"
proof -
  have w: "wf_shape (shape (nextPiece T_start))"
    by (simp add: T_start_next piece_at_sel wf_pieces)
  have l: "placed_legally (field (game_info T_start)) (spawned (nextPiece T_start))"
    by (simp add: T_start_next T_start_sel placed_legally_def spawned_def piece_at_sel pieces_def
        initMatrix_def all_less_4)
  show ?thesis
    using spawn_normal_mode[OF w, of 4] w l
    by (simp add: spawn_normal_eq[OF w] T_start_sel game_with_sel)
qed

section \<open>Ticks while frozen, and Terminate\<close>

lemma frozen_tick:
  assumes "pause (game_info (param w)) = 1 \<or> \<not> start (param w)"
  shows "updateCurrentState cur_time rnd w = Some (game_info (param w), w)"
  using assms by (auto simp: updateCurrentState_def createGameInfo_def)

text \<open>
  Claim C9, as the code has it. While the status flag is 1 (paused) or the game
  has not been started, a tick changes nothing at all: the state of the state
  machine, the field, the pieces, the score, the drop time and the render
  buffer are as before. The snapshot it returns is the stored \<^verbatim>\<open>GameInfo_t\<close>
  itself, whose field is the authoritative field without the current piece,
  not the view built by an earlier tick.
\<close>

theorem tick_noop_when_frozen:
  assumes "pause (game_info (param w)) = 1 \<or> \<not> start (param w)"
  shows "updateCurrentState cur_time rnd w = Some (game_info (param w), w)"
  using assms by (rule frozen_tick)

lemma W_paused_pause: "pause (game_info (param (W_paused sc))) = 1"
  by (simp add: W_paused_def)

theorem tick_noop_when_frozen_witness:
  "pause (game_info (param (W_paused 0))) = 1
   \<and> updateCurrentState (5, 0) 3 (W_paused 0) = Some (game_info (param (W_paused 0)), W_paused 0)
   \<and> \<not> start (param (initGame 2 (boot None True)))
   \<and> updateCurrentState (5, 0) 3 (initGame 2 (boot None True)) =
       Some (game_info (param (initGame 2 (boot None True))), initGame 2 (boot None True))"
  using tick_noop_when_frozen[of "W_paused 0" "(5, 0)" 3]
    tick_noop_when_frozen[of "initGame 2 (boot None True)" "(5, 0)" 3]
  by (simp add: W_paused_pause initGame_def boot_def Let_def spawnNewPiece_def)

lemma reach_W_spawn: "run [InitGame 2, UserInput Start False] (boot None True) = Some W_spawn"
  by code_simp

lemma tick_W_spawn: "updateCurrentState (0, 0) 1 W_spawn = Some ((game_info (param W_moving))\<lparr>field := front_T\<rparr>, W_moving)"
  by code_simp

lemma pause_W_moving: "userInput Pause False W_moving = Some (W_paused 0)"
  by code_simp

lemma front_T_neq: "field (game_info (param (W_paused 0))) \<noteq> front_T"
  by code_simp

text \<open>
  A run: \<^verbatim>\<open>initGame\<close>, Start, a tick that spawns the T-piece and returns the view
  \<open>front_T\<close> with the piece drawn, Pause, and a tick. The paused tick returns
  the bare field, which differs from the view built before.
\<close>

theorem paused_tick_returns_bare_field:
  "run [InitGame 2, UserInput Start False] (boot None True) = Some W_spawn
   \<and> updateCurrentState (0, 0) 1 W_spawn = Some ((game_info (param W_moving))\<lparr>field := front_T\<rparr>, W_moving)
   \<and> userInput Pause False W_moving = Some (W_paused 0)
   \<and> pause (game_info (param (W_paused 0))) = 1
   \<and> updateCurrentState (0, 0) 0 (W_paused 0) = Some (game_info (param (W_paused 0)), W_paused 0)
   \<and> field (game_info (param (W_paused 0))) \<noteq> front_T"
  using reach_W_spawn tick_W_spawn pause_W_moving front_T_neq
  by (simp add: frozen_tick W_paused_pause)

lemma addHighScore_file:
  "highscore_txt (snd (addHighScore s w)) = (if s > getHighScore w \<and> writable w then Some s else highscore_txt w)"
  "state (snd (addHighScore s w)) = state w" "param (snd (addHighScore s w)) = param w"
  "writable (snd (addHighScore s w)) = writable w"
  by (simp_all add: addHighScore_def Let_def)

lemma terminate_eq:
  "userInput Terminate False w =
     Some (w\<lparr>highscore_txt :=
               (if score (game_info (param w)) > high_score (game_info (param w)) \<and>
                   score (game_info (param w)) > getHighScore w \<and> writable w
                then Some (score (game_info (param w))) else highscore_txt w),
            param := (param w)\<lparr>game_info := (game_info (param w))
                       \<lparr>pause := (if pause (game_info (param w)) = 1 then 2 else pause (game_info (param w)))\<rparr>\<rparr>,
            state := GameOver\<rparr>)"
  by (simp add: userInput_def Let_def addHighScore_def)

lemma gameover_tick:
  assumes "state w = GameOver" "start (param w)" "pause (game_info (param w)) \<noteq> 1"
  shows "\<exists>v w'. updateCurrentState cur_time rnd w = Some (v, w') \<and> pause v = 2 \<and> state w' = GameOver
        \<and> pause (game_info (param w')) = 2"
  using assms
  by (simp add: updateCurrentState_def switch_state_def Let_def addHighScore_def createGameInfo_def overlayCurrentPiece_def
      split: prod.splits)

text \<open>
  Claim C8, as the code has it. \<^verbatim>\<open>userInput(Terminate, false)\<close> moves the state
  machine to \<open>GameOver\<close>; it writes the score to the high-score file exactly when
  the score exceeds the cached high score and the value in the file and the
  file can be opened for writing; when the status flag was 1 (paused) it sets
  the flag to 2 at once; when the game has been started and was not paused, the
  next tick sets the flag to 2 and returns it in its snapshot.
\<close>

theorem terminate_effect:
  "\<exists>w'. userInput Terminate False w = Some w'
     \<and> state w' = GameOver
     \<and> highscore_txt w' =
         (if score (game_info (param w)) > high_score (game_info (param w)) \<and>
             score (game_info (param w)) > getHighScore w \<and> writable w
          then Some (score (game_info (param w))) else highscore_txt w)
     \<and> (pause (game_info (param w)) = 1 \<longrightarrow> pause (game_info (param w')) = 2)
     \<and> (start (param w) \<and> pause (game_info (param w)) \<noteq> 1 \<longrightarrow>
          (\<exists>v w''. updateCurrentState cur_time rnd w' = Some (v, w'') \<and> pause v = 2
             \<and> state w'' = GameOver \<and> pause (game_info (param w'')) = 2))"
proof -
  let ?w' = "w\<lparr>highscore_txt :=
               (if score (game_info (param w)) > high_score (game_info (param w)) \<and>
                   score (game_info (param w)) > getHighScore w \<and> writable w
                then Some (score (game_info (param w))) else highscore_txt w),
            param := (param w)\<lparr>game_info := (game_info (param w))
                       \<lparr>pause := (if pause (game_info (param w)) = 1 then 2 else pause (game_info (param w)))\<rparr>\<rparr>,
            state := GameOver\<rparr>"
  have "\<exists>v w''. updateCurrentState cur_time rnd ?w' = Some (v, w'') \<and> pause v = 2
             \<and> state w'' = GameOver \<and> pause (game_info (param w'')) = 2"
    if a: "start (param w) \<and> pause (game_info (param w)) \<noteq> 1"
  proof -
    have "state ?w' = GameOver" "start (param ?w')" "pause (game_info (param ?w')) \<noteq> 1"
      using a by simp_all
    then show ?thesis by (rule gameover_tick)
  qed
  then have "start (param w) \<and> pause (game_info (param w)) \<noteq> 1 \<longrightarrow>
          (\<exists>v w''. updateCurrentState cur_time rnd ?w' = Some (v, w'') \<and> pause v = 2
             \<and> state w'' = GameOver \<and> pause (game_info (param w'')) = 2)"
    by blast
  moreover have "userInput Terminate False w = Some ?w'" by (rule terminate_eq)
  moreover have "state ?w' = GameOver" by simp
  moreover have "highscore_txt ?w' =
         (if score (game_info (param w)) > high_score (game_info (param w)) \<and>
             score (game_info (param w)) > getHighScore w \<and> writable w
          then Some (score (game_info (param w))) else highscore_txt w)" by simp
  moreover have "pause (game_info (param w)) = 1 \<longrightarrow> pause (game_info (param ?w')) = 2" by simp
  ultimately show ?thesis by blast
qed

theorem terminate_effect_witness:
  "userInput Terminate False (W_paused 700) =
     Some (W_paused 700\<lparr>highscore_txt := Some 700,
            param := (param (W_paused 700))\<lparr>game_info := (game_info (param (W_paused 700)))\<lparr>pause := 2\<rparr>\<rparr>,
            state := GameOver\<rparr>)
   \<and> pause (game_info (param (W_paused 700))) = 1
   \<and> start (param W_moving) \<and> pause (game_info (param W_moving)) \<noteq> 1
   \<and> userInput Terminate False W_moving = Some (W_moving\<lparr>state := GameOver\<rparr>)
   \<and> map_option (pause \<circ> fst) (updateCurrentState (0, 0) 0 (W_moving\<lparr>state := GameOver\<rparr>)) = Some 2"
  using terminate_effect[of W_moving "(0, 0)" 0] terminate_effect[of "W_paused 700" "(0, 0)" 0]
  by (auto simp: terminate_eq W_paused_def W_moving_def T_start_def game_with_def getHighScore_def level_of_def c_div_def)

text \<open>Terminate in a running game (flag 0): the flag is still 0 afterwards.\<close>

theorem terminate_running_keeps_flag:
  "pause (game_info (param W_moving)) = 0
   \<and> userInput Terminate False W_moving = Some (W_moving\<lparr>state := GameOver\<rparr>)
   \<and> pause (game_info (param (W_moving\<lparr>state := GameOver\<rparr>))) \<noteq> 2"
  by (simp add: terminate_eq W_moving_def T_start_def game_with_def getHighScore_def)

section \<open>Hard drop\<close>

lemma canPlacePiece_legal': "canPlacePiece p = 1 \<longleftrightarrow> legal p"
  by (simp add: canPlacePiece_legal legal_def)

lemma lowered_0: "lowered p 0 = p"
  by (simp add: lowered_def)

lemma lowered_Suc: "lowered (lowered p (Suc 0)) n = lowered p (Suc n)"
  by (simp add: lowered_def add.assoc)

lemma lowered_1: "p\<lparr>currentPiece := (currentPiece p)\<lparr>posY := posY (currentPiece p) + 1\<rparr>\<rparr> = lowered p 1"
  by (simp add: lowered_def)

lemma lowered_shape: "shape (currentPiece (lowered p n)) = shape (currentPiece p)"
  "posY (currentPiece (lowered p n)) = posY (currentPiece p) + int n"
  by (simp_all add: lowered_def)

lemma legal_down:
  assumes "legal p" "down_ok p"
  shows "legal (lowered p 1)"
  unfolding legal_def placed_legally_def
proof (intro allI impI)
  fix i j :: nat assume ij: "i < 4" "j < 4"
    and s: "shape (currentPiece (lowered p 1)) ! i ! j \<noteq> 0"
  from s have s': "shape (currentPiece p) ! i ! j \<noteq> 0" by (simp add: lowered_def)
  from assms(1) ij s' have
    "0 \<le> posX (currentPiece p) + int j \<and> posX (currentPiece p) + int j < 10 \<and>
     0 \<le> posY (currentPiece p) + int i"
    by (simp add: legal_def placed_legally_def)
  moreover from assms(2) ij s' have
    "posY (currentPiece p) + 1 + int i < 20 \<and>
      field (game_info p) ! nat (posY (currentPiece p) + 1 + int i) ! nat (posX (currentPiece p) + int j) = 0"
    by (simp add: down_ok_def)
  ultimately show "0 \<le> posX (currentPiece (lowered p 1)) + int j \<and>
         posX (currentPiece (lowered p 1)) + int j < FIELD_WIDTH \<and>
         0 \<le> posY (currentPiece (lowered p 1)) + int i \<and>
         posY (currentPiece (lowered p 1)) + int i < FIELD_HEIGHT \<and>
         field (game_info (lowered p 1)) ! nat (posY (currentPiece (lowered p 1)) + int i) !
           nat (posX (currentPiece (lowered p 1)) + int j) = 0"
    by (simp add: lowered_def)
qed

lemma moveFigureDown_legal:
  assumes "legal p"
  shows "moveFigureDown p = Some (if down_ok p then (1, lowered p 1) else (0, p))"
  using moveFigureDown_eq[OF moveFigureDown_defined] assms
  by (simp add: canPlacePiece_legal' lowered_1)

lemma hard_drop_lowers:
  assumes "legal p" "\<exists>i<4. \<exists>j<4. shape (currentPiece p) ! i ! j \<noteq> 0"
  shows "\<exists>n. hard_drop p = Some (lowered p n) \<and> (\<forall>k<n. down_ok (lowered p k)) \<and> \<not> down_ok (lowered p n)"
  using assms
proof (induction "nat (20 - posY (currentPiece p))" arbitrary: p rule: less_induct)
  case less
  show ?case
  proof (cases "down_ok p")
    case False
    then have "hard_drop p = Some (lowered p 0)"
      by (subst hard_drop.simps) (simp add: moveFigureDown_legal[OF less.prems(1)] lowered_0)
    moreover have "\<not> down_ok (lowered p 0)" using False by (simp add: lowered_0)
    ultimately show ?thesis by (intro exI[of _ 0]) simp
  next
    case True
    obtain i j where ij: "i < 4" "j < 4" "shape (currentPiece p) ! i ! j \<noteq> 0"
      using less.prems(2) by blast
    with True have "posY (currentPiece p) + 1 + int i < 20" by (simp add: down_ok_def)
    then have m: "nat (20 - posY (currentPiece (lowered p 1))) < nat (20 - posY (currentPiece p))"
      by (simp add: lowered_def)
    have l: "legal (lowered p 1)" using less.prems(1) True by (rule legal_down)
    have ne: "\<exists>i<4. \<exists>j<4. shape (currentPiece (lowered p 1)) ! i ! j \<noteq> 0"
      using less.prems(2) by (simp add: lowered_shape)
    obtain n where n: "hard_drop (lowered p 1) = Some (lowered (lowered p 1) n)"
      "\<forall>k<n. down_ok (lowered (lowered p 1) k)" "\<not> down_ok (lowered (lowered p 1) n)"
      using less.hyps[OF m l ne] by blast
    have "hard_drop p = hard_drop (lowered p 1)"
      by (subst hard_drop.simps) (simp add: moveFigureDown_legal[OF less.prems(1)] True)
    then have "hard_drop p = Some (lowered p (Suc n))" using n(1) by (simp add: lowered_Suc)
    moreover have "down_ok (lowered p k)" if "k < Suc n" for k
    proof (cases k)
      case 0
      then show ?thesis using True by (simp add: lowered_0)
    next
      case (Suc k')
      with that n(2) have "down_ok (lowered (lowered p 1) k')" by simp
      then show ?thesis by (simp add: lowered_Suc Suc)
    qed
    moreover have "\<not> down_ok (lowered p (Suc n))" using n(3) by (simp add: lowered_Suc)
    ultimately show ?thesis by blast
  qed
qed

lemma userInput_hold:
  "userInput a True w =
     (if state w = Moving \<and> pause (game_info (param w)) = 0
      then map_option (\<lambda>p'. w\<lparr>param := p'\<rparr>) (hard_drop (param w)) else Some w)"
  by (simp add: userInput_def Let_def)

text \<open>
  Claim C10. With \<open>hold = true\<close>, \<^verbatim>\<open>userInput\<close> ignores the action \<open>a\<close>. In state
  \<open>Moving\<close> with status flag 0 and a legally placed piece that has an occupied cell
  it returns, and its only effect is that the current piece is \<open>n\<close> rows further
  down, where every one of the \<open>n\<close> single moves down was possible and a further
  one is not. In every other state, and with every other flag (1, paused, and also
  2, terminal), it changes nothing.
\<close>

theorem hold_is_hard_drop:
  "(state w = Moving \<and> pause (game_info (param w)) = 0
      \<and> placed_legally (field (game_info (param w))) (currentPiece (param w))
      \<and> (\<exists>i<4. \<exists>j<4. shape (currentPiece (param w)) ! i ! j \<noteq> 0)
    \<longrightarrow> (\<exists>n. userInput a True w = Some (w\<lparr>param := lowered (param w) n\<rparr>)
            \<and> (\<forall>k<n. down_ok (lowered (param w) k))
            \<and> \<not> down_ok (lowered (param w) n)))
   \<and> (state w \<noteq> Moving \<or> pause (game_info (param w)) \<noteq> 0 \<longrightarrow> userInput a True w = Some w)"
proof (intro conjI impI)
  assume A: "state w = Moving \<and> pause (game_info (param w)) = 0
      \<and> placed_legally (field (game_info (param w))) (currentPiece (param w))
      \<and> (\<exists>i<4. \<exists>j<4. shape (currentPiece (param w)) ! i ! j \<noteq> 0)"
  then have "legal (param w)" by (simp add: legal_def)
  moreover from A have "\<exists>i<4. \<exists>j<4. shape (currentPiece (param w)) ! i ! j \<noteq> 0" by simp
  ultimately have "\<exists>n. hard_drop (param w) = Some (lowered (param w) n)
      \<and> (\<forall>k<n. down_ok (lowered (param w) k)) \<and> \<not> down_ok (lowered (param w) n)"
    by (rule hard_drop_lowers)
  then show "\<exists>n. userInput a True w = Some (w\<lparr>param := lowered (param w) n\<rparr>)
            \<and> (\<forall>k<n. down_ok (lowered (param w) k))
            \<and> \<not> down_ok (lowered (param w) n)"
    using A by (auto simp: userInput_hold)
next
  assume "state w \<noteq> Moving \<or> pause (game_info (param w)) \<noteq> 0"
  then show "userInput a True w = Some w" by (auto simp: userInput_hold)
qed

lemma W_moving_drop: "userInput Left True W_moving = Some (W_moving\<lparr>param := lowered (param W_moving) 18\<rparr>)"
  by code_simp

theorem hold_is_hard_drop_witness:
  "state W_moving = Moving \<and> pause (game_info (param W_moving)) = 0
   \<and> placed_legally (field (game_info (param W_moving))) (currentPiece (param W_moving))
   \<and> shape (currentPiece (param W_moving)) ! 0 ! 1 \<noteq> 0
   \<and> userInput Left True W_moving = Some (W_moving\<lparr>param := lowered (param W_moving) 18\<rparr>)
   \<and> (\<exists>n. userInput Left True W_moving = Some (W_moving\<lparr>param := lowered (param W_moving) n\<rparr>)
            \<and> (\<forall>k<n. down_ok (lowered (param W_moving) k))
            \<and> \<not> down_ok (lowered (param W_moving) n))
   \<and> pause (game_info (param W_flag2)) \<noteq> 0
   \<and> userInput Left True W_flag2 = Some W_flag2"
proof -
  have 1: "state W_moving = Moving" "pause (game_info (param W_moving)) = 0"
    by (simp_all add: W_moving_def T_start_def game_with_def)
  have 2: "placed_legally (field (game_info (param W_moving))) (currentPiece (param W_moving))"
    by (simp add: W_moving_def T_start_def game_with_def placed_legally_def all_less_4 piece_at_sel
        pieces_def initMatrix_def)
  have 3: "shape (currentPiece (param W_moving)) ! 0 ! 1 \<noteq> 0"
    by (simp add: W_moving_def T_start_def game_with_def piece_at_sel pieces_def)
  have 4: "\<exists>i<4. \<exists>j<4. shape (currentPiece (param W_moving)) ! i ! j \<noteq> 0"
    using 3 by (auto simp: ex_less_4)
  have 5: "pause (game_info (param W_flag2)) \<noteq> 0" by (simp add: W_flag2_def)
  show ?thesis
    using hold_is_hard_drop[of W_moving Left] hold_is_hard_drop[of W_flag2 Left]
      1 2 3 4 5 W_moving_drop by simp
qed

text \<open>
  A game that is not paused and does not drop. After the six calls of
  \<open>restart_calls\<close> the state is \<open>Moving\<close> and the status flag is 2, not 1: the game is
  not paused. The O-piece at the top of the empty field is legally placed and can
  move down, and the tick is not frozen: after 1.1 seconds it goes on to
  \<open>Shifting\<close>. With hold the call changes nothing, while the hard drop would lower
  the piece: the guard \<^verbatim>\<open>!param->game_info->pause\<close> asks for the flag 0.
\<close>

lemma reach_W_flag2: "run restart_calls (initGame 2 (boot None True)) = Some W_flag2"
  by code_simp

lemma W_flag2_tick:
  "map_option (state \<circ> snd) (updateCurrentState (1, 100000000) 0 W_flag2) = Some Shifting"
  by code_simp

lemma W_flag2_legal:
  "placed_legally (field (game_info (param W_flag2))) (currentPiece (param W_flag2))"
  "down_ok (param W_flag2)"
  by (simp_all add: W_flag2_def placed_legally_def down_ok_def all_less_4 piece_at_sel
      pieces_def initMatrix_def)

lemma W_flag2_hold: "userInput Down True W_flag2 = Some W_flag2"
  by (simp add: userInput_hold W_flag2_def)

theorem hold_without_drop_at_flag_2:
  "run restart_calls (initGame 2 (boot None True)) = Some W_flag2
   \<and> state W_flag2 = Moving \<and> pause (game_info (param W_flag2)) = 2
   \<and> pause (game_info (param W_flag2)) \<noteq> 1
   \<and> placed_legally (field (game_info (param W_flag2))) (currentPiece (param W_flag2))
   \<and> shape (currentPiece (param W_flag2)) ! 0 ! 0 \<noteq> 0
   \<and> down_ok (param W_flag2)
   \<and> map_option (state \<circ> snd) (updateCurrentState (1, 100000000) 0 W_flag2) = Some Shifting
   \<and> userInput Down True W_flag2 = Some W_flag2
   \<and> W_flag2 \<noteq> W_flag2\<lparr>param := lowered (param W_flag2) 1\<rparr>"
proof -
  have "state W_flag2 = Moving" "pause (game_info (param W_flag2)) = 2"
    "shape (currentPiece (param W_flag2)) ! 0 ! 0 \<noteq> 0"
    "W_flag2 \<noteq> W_flag2\<lparr>param := lowered (param W_flag2) 1\<rparr>"
    by (simp_all add: W_flag2_def piece_at_def pieces_def lowered_def)
  then show ?thesis
    using reach_W_flag2 W_flag2_tick W_flag2_legal W_flag2_hold by simp
qed
section \<open>The placement invariant of reachable states\<close>

lemma legal_in_bounds: "legal p \<Longrightarrow> in_bounds (currentPiece p)"
  by (simp add: legal_def placed_legally_def in_bounds_def)

lemma legal_cong:
  "field (game_info p') = field (game_info p) \<Longrightarrow> shape (currentPiece p') = shape (currentPiece p) \<Longrightarrow>
   posX (currentPiece p') = posX (currentPiece p) \<Longrightarrow> posY (currentPiece p') = posY (currentPiece p) \<Longrightarrow>
   legal p' = legal p"
  by (simp add: legal_def placed_legally_def)

lemma legal_left:
  assumes "legal p" "left_ok p"
  shows "legal (p\<lparr>currentPiece := (currentPiece p)\<lparr>posX := posX (currentPiece p) - 1\<rparr>\<rparr>)"
  unfolding legal_def placed_legally_def
proof (intro allI impI)
  fix i j :: nat
  let ?p' = "p\<lparr>currentPiece := (currentPiece p)\<lparr>posX := posX (currentPiece p) - 1\<rparr>\<rparr>"
  assume ij: "i < 4" "j < 4" and "shape (currentPiece ?p') ! i ! j \<noteq> 0"
  then have s': "shape (currentPiece p) ! i ! j \<noteq> 0" by simp
  from assms(1) ij s' have
    "posX (currentPiece p) + int j < 10 \<and> 0 \<le> posY (currentPiece p) + int i \<and> posY (currentPiece p) + int i < 20"
    by (simp add: legal_def placed_legally_def)
  moreover from assms(2) ij s' have
    "0 \<le> posX (currentPiece p) - 1 + int j \<and>
      field (game_info p) ! nat (posY (currentPiece p) + int i) ! nat (posX (currentPiece p) - 1 + int j) = 0"
    by (simp add: left_ok_def)
  ultimately show "0 \<le> posX (currentPiece ?p') + int j \<and>
         posX (currentPiece ?p') + int j < FIELD_WIDTH \<and>
         0 \<le> posY (currentPiece ?p') + int i \<and>
         posY (currentPiece ?p') + int i < FIELD_HEIGHT \<and>
         field (game_info ?p') ! nat (posY (currentPiece ?p') + int i) !
           nat (posX (currentPiece ?p') + int j) = 0"
    by simp
qed

lemma legal_right:
  assumes "legal p" "right_ok p"
  shows "legal (p\<lparr>currentPiece := (currentPiece p)\<lparr>posX := posX (currentPiece p) + 1\<rparr>\<rparr>)"
  unfolding legal_def placed_legally_def
proof (intro allI impI)
  fix i j :: nat
  let ?p' = "p\<lparr>currentPiece := (currentPiece p)\<lparr>posX := posX (currentPiece p) + 1\<rparr>\<rparr>"
  assume ij: "i < 4" "j < 4" and "shape (currentPiece ?p') ! i ! j \<noteq> 0"
  then have s': "shape (currentPiece p) ! i ! j \<noteq> 0" by simp
  from assms(1) ij s' have
    "0 \<le> posX (currentPiece p) + int j \<and> 0 \<le> posY (currentPiece p) + int i \<and> posY (currentPiece p) + int i < 20"
    by (simp add: legal_def placed_legally_def)
  moreover from assms(2) ij s' have
    "posX (currentPiece p) + 1 + int j < 10 \<and>
      field (game_info p) ! nat (posY (currentPiece p) + int i) ! nat (posX (currentPiece p) + 1 + int j) = 0"
    by (simp add: right_ok_def)
  ultimately show "0 \<le> posX (currentPiece ?p') + int j \<and>
         posX (currentPiece ?p') + int j < FIELD_WIDTH \<and>
         0 \<le> posY (currentPiece ?p') + int i \<and>
         posY (currentPiece ?p') + int i < FIELD_HEIGHT \<and>
         field (game_info ?p') ! nat (posY (currentPiece ?p') + int i) !
           nat (posX (currentPiece ?p') + int j) = 0"
    by simp
qed

lemma moveFigureLeft_legal:
  assumes "legal p" "moveFigureLeft p = Some (r, p')"
  shows "legal p'"
proof -
  have "moveFigureLeft p \<noteq> None" using assms(2) by simp
  from moveFigureLeft_eq[OF this] assms(2) legal_left[OF assms(1)] assms(1)
  show ?thesis by (auto split: if_splits)
qed

lemma moveFigureRight_legal:
  assumes "legal p" "moveFigureRight p = Some (r, p')"
  shows "legal p'"
proof -
  have "moveFigureRight p \<noteq> None" using assms(2) by simp
  from moveFigureRight_eq[OF this] assms(2) legal_right[OF assms(1)] assms(1)
  show ?thesis by (auto split: if_splits)
qed

lemma moveFigureDown_legal_step:
  assumes "legal p" "moveFigureDown p = Some (r, p')"
  shows "legal p'"
  using assms legal_down[OF assms(1)] by (auto simp: moveFigureDown_legal split: if_splits)

lemma hard_drop_legal:
  assumes "hard_drop p = Some p'" "legal p"
  shows "legal p'"
proof -
  have "legal p \<longrightarrow> legal p'"
  proof (rule hard_drop.raw_induct[where P = "\<lambda>p y. legal p \<longrightarrow> legal y", OF _ assms(1)])
    fix drop_fn p y
    assume IH: "\<And>x y. drop_fn x = Some y \<Longrightarrow> legal x \<longrightarrow> legal y"
      and eq: "(case moveFigureDown p of None \<Rightarrow> None
                | Some (r, p') \<Rightarrow> if r \<noteq> 0 then drop_fn p' else Some p') = Some y"
    show "legal p \<longrightarrow> legal y"
    proof
      assume l: "legal p"
      show "legal y"
      proof (cases "down_ok p")
        case True
        then have "drop_fn (lowered p 1) = Some y"
          using eq by (simp add: moveFigureDown_legal[OF l])
        from IH[OF this] legal_down[OF l True] show ?thesis by simp
      next
        case False
        then have "y = p" using eq by (simp add: moveFigureDown_legal[OF l])
        then show ?thesis using l by simp
      qed
    qed
  qed
  then show ?thesis using assms(2) by simp
qed

lemma rotatePiece_legal:
  assumes "legal p"
  shows "legal (snd (rotatePiece p))"
proof -
  let ?cur = "currentPiece p"
  have a: "legal (p\<lparr>currentPiece := ?cur\<lparr>shape := copyPieceShape (copyPieceShape (shape ?cur))\<rparr>\<rparr>)"
    using assms by (simp add: legal_def placed_legally_def copyPieceShape_nth)
  have b: "legal (p\<lparr>currentPiece := rotated_piece ?cur\<rparr>)"
    if "canPlacePiece (p\<lparr>currentPiece := (rotated_piece ?cur)\<lparr>rotation := rotation ?cur\<rparr>\<rparr>) \<noteq> 0"
    using that by (simp add: canPlacePiece_legal legal_def placed_legally_def split: if_splits)
  show ?thesis
    using assms a b by (simp add: rotatePiece_cases)
qed

lemma piece_inv_alt:
  "piece_inv w \<longleftrightarrow> in_bounds (currentPiece (param w)) \<and>
     (state w \<noteq> Spawn \<and> state w \<noteq> GameOver \<longrightarrow> legal (param w))"
  by (simp add: piece_inv_def legal_def)

lemma piece_inv_legal: "legal (param w) \<Longrightarrow> piece_inv w"
  by (simp add: piece_inv_alt legal_in_bounds)

lemma spawn_normal_inv:
  assumes "spawnNewPiece p False rnd = (r, p')"
  shows "in_bounds (currentPiece p') \<and> (r \<noteq> 0 \<longrightarrow> legal p')"
proof -
  let ?p1 = "p\<lparr>currentPiece :=
                (currentPiece p)\<lparr>shape := copyPieceShape (shape (nextPiece p)),
                                 type := type (nextPiece p), rotation := 0, posX := 3, posY := 0\<rparr>\<rparr>"
  have ib: "in_bounds (currentPiece ?p1)"
    by (simp add: in_bounds_def)
  show ?thesis
  proof (cases "canPlacePiece ?p1 \<noteq> 0")
    case True
    then have l: "legal ?p1" by (simp add: canPlacePiece_legal legal_def split: if_splits)
    from True assms have "currentPiece p' = currentPiece ?p1" "field (game_info p') = field (game_info ?p1)"
      by (auto simp: spawnNewPiece_def Let_def spawn_pos)
    then have "legal p' = legal ?p1" by (intro legal_cong) simp_all
    with l show ?thesis by (simp add: legal_in_bounds)
  next
    case False
    with assms have "r = 0" "p' = ?p1" by (auto simp: spawnNewPiece_def Let_def spawn_pos)
    with ib show ?thesis by simp
  qed
qed

lemma getTime_sel:
  "currentPiece (snd (getTime p t)) = currentPiece p" "game_info (snd (getTime p t)) = game_info p"
  by (simp_all add: getTime_def Let_def)

lemma createGameInfo_sel:
  "currentPiece (snd (createGameInfo p rc)) = currentPiece p"
  "game_info (snd (createGameInfo p rc)) = game_info p"
  by (simp_all add: createGameInfo_def Let_def overlayCurrentPiece_def)

lemma addHighScore_sel:
  "param (snd (addHighScore s w)) = param w" "state (snd (addHighScore s w)) = state w"
  by (simp_all add: addHighScore_def Let_def)

lemma updateInfo_piece: "currentPiece (updateInfo p n) = currentPiece p"
  by (simp add: updateInfo_unfold)

lemma updateCurrentGameInfo_piece:
  "updateCurrentGameInfo p = Some p' \<Longrightarrow> currentPiece p' = currentPiece p"
  by (auto simp: updateCurrentGameInfo_def Let_def updateInfo_piece split: option.splits if_splits)

lemma fixFigure_piece: "currentPiece (fixFigure p) = currentPiece p"
  by (simp add: fixFigure_def)

lemma switch_state_inv:
  assumes "piece_inv w" "switch_state t rnd w = Some w'"
  shows "piece_inv w'"
proof (cases "state w")
  case Start_t
  then show ?thesis using assms by (auto simp: switch_state_def Let_def piece_inv_alt)
next
  case Spawn
  obtain r p' where sp: "spawnNewPiece (param w) False rnd = (r, p')" by (cases "spawnNewPiece (param w) False rnd")
  then have "w' = w\<lparr>param := p', state := (if r \<noteq> 0 then Moving else GameOver)\<rparr>"
    using assms(2) Spawn by (simp add: switch_state_def Let_def)
  then show ?thesis using spawn_normal_inv[OF sp] by (simp add: piece_inv_alt)
next
  case Moving
  have "legal (param w)" using assms(1) Moving by (simp add: piece_inv_alt)
  then have "legal (snd (getTime (param w) t))"
    by (subst legal_cong[of _ "param w"]) (simp_all add: getTime_sel)
  moreover have "param w' = snd (getTime (param w) t)"
    using assms(2) Moving by (auto simp: switch_state_def Let_def split: prod.splits if_splits)
  ultimately show ?thesis by (simp add: piece_inv_legal)
next
  case Shifting
  have l: "legal (param w)" using assms(1) Shifting by (simp add: piece_inv_alt)
  from assms(2) Shifting obtain r p' where "moveFigureDown (param w) = Some (r, p')" "param w' = p'"
    by (auto simp: switch_state_def Let_def)
  then show ?thesis using moveFigureDown_legal_step[OF l] by (simp add: piece_inv_legal)
next
  case Pause_t
  then show ?thesis using assms by (simp add: switch_state_def Let_def)
next
  case Attaching
  from assms(2) Attaching obtain p' where p': "updateCurrentGameInfo (fixFigure (param w)) = Some p'"
    "w' = w\<lparr>param := p', state := Spawn\<rparr>"
    by (auto simp: switch_state_def Let_def)
  have "currentPiece p' = currentPiece (param w)"
    using updateCurrentGameInfo_piece[OF p'(1)] by (simp add: fixFigure_piece)
  then show ?thesis using assms(1) p'(2) by (simp add: piece_inv_alt)
next
  case Terminate_t
  have l: "legal (param w)" using assms(1) Terminate_t by (simp add: piece_inv_alt)
  have "param w' = (param w)\<lparr>game_info := (game_info (param w))\<lparr>pause := 2\<rparr>\<rparr>"
    using assms(2) Terminate_t by (auto simp: switch_state_def Let_def addHighScore_sel)
  then have "legal (param w') = legal (param w)" by (intro legal_cong) simp_all
  with l show ?thesis by (simp add: piece_inv_legal)
next
  case GameOver
  have "currentPiece (param w') = currentPiece (param w)" "state w' = GameOver"
    using assms(2) GameOver by (auto simp: switch_state_def Let_def addHighScore_sel)
  then show ?thesis using assms(1) by (simp add: piece_inv_alt)
qed

lemma piece_inv_param_cong:
  assumes "state w' = state w" "currentPiece (param w') = currentPiece (param w)"
    "field (game_info (param w')) = field (game_info (param w))"
  shows "piece_inv w' = piece_inv w"
  using assms by (simp add: piece_inv_def)

lemma updateCurrentState_inv:
  assumes "piece_inv w" "updateCurrentState t rnd w = Some (v, w')"
  shows "piece_inv w'"
proof (cases "pause (game_info (param w)) = 1 \<or> \<not> start (param w)")
  case True
  then show ?thesis using assms by (simp add: frozen_tick)
next
  case False
  then obtain w1 where w1: "switch_state t rnd w = Some w1"
    "w' = w1\<lparr>param := snd (createGameInfo (param w1) 1)\<rparr>"
    using assms(2) by (auto simp: updateCurrentState_def Let_def split: option.splits prod.splits)
  have "piece_inv w1" using assms(1) w1(1) by (rule switch_state_inv)
  moreover have "piece_inv w' = piece_inv w1"
    by (rule piece_inv_param_cong) (simp_all add: w1(2) createGameInfo_sel)
  ultimately show ?thesis by simp
qed

lemma userInput_inv:
  assumes "piece_inv w" "userInput a h w = Some w'"
  shows "piece_inv w'"
proof (cases h)
  case True
  show ?thesis
  proof (cases "state w = Moving \<and> pause (game_info (param w)) = 0")
    case m: True
    then have l: "legal (param w)" using assms(1) by (simp add: piece_inv_alt)
    from assms(2) True m obtain p' where "hard_drop (param w) = Some p'" "w' = w\<lparr>param := p'\<rparr>"
      by (auto simp: userInput_hold)
    then show ?thesis using hard_drop_legal[OF _ l] by (simp add: piece_inv_legal)
  next
    case False
    then show ?thesis using assms True by (auto simp: userInput_hold)
  qed
next
  case False
  show ?thesis
  proof (cases a)
    case Start
    then show ?thesis using assms False by (auto simp: userInput_def Let_def piece_inv_alt split: if_splits)
  next
    case Pause
    then show ?thesis using assms False
      by (auto simp: userInput_def Let_def piece_inv_alt legal_def split: if_splits)
  next
    case Terminate
    then have "state w' = GameOver" "currentPiece (param w') = currentPiece (param w)"
      using assms(2) False by (auto simp: terminate_eq)
    then show ?thesis using assms(1) by (simp add: piece_inv_alt)
  next
    case Left
    show ?thesis
    proof (cases "state w = Moving \<and> pause (game_info (param w)) = 0")
      case m: True
      then have l: "legal (param w)" using assms(1) by (simp add: piece_inv_alt)
      from assms(2) False Left m obtain r p' where "moveFigureLeft (param w) = Some (r, p')" "w' = w\<lparr>param := p'\<rparr>"
        by (auto simp: userInput_def Let_def)
      then show ?thesis using moveFigureLeft_legal[OF l] by (simp add: piece_inv_legal)
    next
      case f: False
      then show ?thesis using assms False Left by (auto simp: userInput_def Let_def)
    qed
  next
    case Right
    show ?thesis
    proof (cases "state w = Moving \<and> pause (game_info (param w)) = 0")
      case m: True
      then have l: "legal (param w)" using assms(1) by (simp add: piece_inv_alt)
      from assms(2) False Right m obtain r p' where "moveFigureRight (param w) = Some (r, p')" "w' = w\<lparr>param := p'\<rparr>"
        by (auto simp: userInput_def Let_def)
      then show ?thesis using moveFigureRight_legal[OF l] by (simp add: piece_inv_legal)
    next
      case f: False
      then show ?thesis using assms False Right by (auto simp: userInput_def Let_def)
    qed
  next
    case Up
    then show ?thesis using assms False by (simp add: userInput_def Let_def)
  next
    case Down
    then show ?thesis using assms False by (simp add: userInput_def Let_def)
  next
    case Action
    show ?thesis
    proof (cases "state w = Moving \<and> pause (game_info (param w)) = 0")
      case m: True
      then have l: "legal (param w)" using assms(1) by (simp add: piece_inv_alt)
      from assms(2) False Action m have "w' = w\<lparr>param := snd (rotatePiece (param w))\<rparr>"
        by (auto simp: userInput_def Let_def)
      then show ?thesis using rotatePiece_legal[OF l] by (simp add: piece_inv_legal)
    next
      case f: False
      then show ?thesis using assms False Action by (auto simp: userInput_def Let_def)
    qed
  qed
qed

lemma initGame_sel:
  "state (initGame rnd w) = Start_t"
  "currentPiece (param (initGame rnd w)) = currentPiece (param w)"
  "field (game_info (param (initGame rnd w))) = initMatrix 20 10"
  by (simp_all add: initGame_def Let_def spawnNewPiece_def)

lemma initGame_inv:
  assumes "in_bounds (currentPiece (param w))"
  shows "piece_inv (initGame rnd w)"
proof -
  have z: "initMatrix 20 10 ! nat y ! nat x = 0" if "0 \<le> y" "y < 20" "0 \<le> x" "x < 10" for x y :: int
    using that by (simp add: initMatrix_def)
  have "placed_legally (initMatrix 20 10) (currentPiece (param w))"
    unfolding placed_legally_def
  proof (intro allI impI)
    fix i j :: nat assume "i < 4" "j < 4" "shape (currentPiece (param w)) ! i ! j \<noteq> 0"
    with assms have b: "0 \<le> posX (currentPiece (param w)) + int j \<and> posX (currentPiece (param w)) + int j < 10 \<and>
      0 \<le> posY (currentPiece (param w)) + int i \<and> posY (currentPiece (param w)) + int i < 20"
      by (simp add: in_bounds_def)
    then show "0 \<le> posX (currentPiece (param w)) + int j \<and>
         posX (currentPiece (param w)) + int j < FIELD_WIDTH \<and>
         0 \<le> posY (currentPiece (param w)) + int i \<and>
         posY (currentPiece (param w)) + int i < FIELD_HEIGHT \<and>
         initMatrix 20 10 ! nat (posY (currentPiece (param w)) + int i) !
           nat (posX (currentPiece (param w)) + int j) = 0"
      using z by blast
  qed
  then show ?thesis using assms by (simp add: piece_inv_def initGame_sel)
qed

lemma boot_in_bounds: "in_bounds (currentPiece (param (boot hs wr)))"
  by (simp add: boot_def in_bounds_def initMatrix_def)

section \<open>Score, level and speed of a reachable state are 32-bit values\<close>

lemma stats_inv_cong:
  "score gi' = score gi \<Longrightarrow> level gi' = level gi \<Longrightarrow> speed gi' = speed gi \<Longrightarrow>
   stats_inv gi' = stats_inv gi"
  by (simp add: stats_inv_def)

lemma stats_inv_updateInfo:
  assumes "stats_inv (game_info p)"
  shows "stats_inv (game_info (updateInfo p n))"
  using assms updateInfo_int32[of p n] by (simp add: stats_inv_def)

lemma moves_game_info:
  "moveFigureLeft p = Some (r, p') \<Longrightarrow> game_info p' = game_info p"
  "moveFigureRight p = Some (r, p') \<Longrightarrow> game_info p' = game_info p"
  "moveFigureDown p = Some (r, p') \<Longrightarrow> game_info p' = game_info p"
  by (auto simp: moveFigureLeft_def moveFigureRight_def moveFigureDown_def Let_def
      split: option.splits if_splits)

lemma rotatePiece_game_info: "game_info (snd (rotatePiece p)) = game_info p"
  by (simp add: rotatePiece_cases)

lemma hard_drop_game_info:
  assumes "hard_drop p = Some p'"
  shows "game_info p' = game_info p"
proof (rule hard_drop.raw_induct[where P = "\<lambda>p y. game_info y = game_info p", OF _ assms])
  fix drop_fn p y
  assume IH: "\<And>x y. drop_fn x = Some y \<Longrightarrow> game_info y = game_info x"
    and eq: "(case moveFigureDown p of None \<Rightarrow> None
              | Some (r, p') \<Rightarrow> if r \<noteq> 0 then drop_fn p' else Some p') = Some y"
  from eq obtain r p1 where m: "moveFigureDown p = Some (r, p1)"
    by (auto split: option.splits)
  show "game_info y = game_info p"
    using eq m IH[of p1 y] moves_game_info(3)[OF m] by (auto split: if_splits)
qed

lemma spawn_stats:
  "score (game_info (snd (spawnNewPiece p i rnd))) = score (game_info p)"
  "level (game_info (snd (spawnNewPiece p i rnd))) = level (game_info p)"
  "speed (game_info (snd (spawnNewPiece p i rnd))) = speed (game_info p)"
  by (simp_all add: spawnNewPiece_def Let_def)

lemma updateCurrentGameInfo_stats:
  assumes "updateCurrentGameInfo p = Some p'" "stats_inv (game_info p)"
  shows "stats_inv (game_info p')"
proof -
  from assms(1) obtain f n where
    p': "p' = (if n \<noteq> 0 then updateInfo (p\<lparr>game_info := (game_info p)\<lparr>field := f\<rparr>\<rparr>) n
               else p\<lparr>game_info := (game_info p)\<lparr>field := f\<rparr>\<rparr>)"
    by (auto simp: updateCurrentGameInfo_def Let_def split: option.splits)
  have "stats_inv (game_info (p\<lparr>game_info := (game_info p)\<lparr>field := f\<rparr>\<rparr>))"
    using assms(2) by (simp add: stats_inv_def)
  then show ?thesis using stats_inv_updateInfo by (simp add: p')
qed

lemma switch_state_stats:
  assumes "stats_inv (game_info (param w))" "switch_state t rnd w = Some w'"
  shows "stats_inv (game_info (param w'))"
proof (cases "state w")
  case Start_t
  then show ?thesis using assms by (auto simp: switch_state_def Let_def)
next
  case Spawn
  then have "param w' = snd (spawnNewPiece (param w) False rnd)"
    using assms(2) by (auto simp: switch_state_def Let_def split: prod.splits)
  then have "stats_inv (game_info (param w')) = stats_inv (game_info (param w))"
    by (intro stats_inv_cong) (simp_all add: spawn_stats)
  then show ?thesis using assms(1) by simp
next
  case Moving
  then have "param w' = snd (getTime (param w) t)"
    using assms(2) by (auto simp: switch_state_def Let_def split: prod.splits if_splits)
  then show ?thesis using assms(1) by (simp add: getTime_sel)
next
  case Shifting
  with assms(2) obtain r p' where "moveFigureDown (param w) = Some (r, p')" "param w' = p'"
    by (auto simp: switch_state_def Let_def)
  then show ?thesis using assms(1) moves_game_info(3) by simp
next
  case Pause_t
  then show ?thesis using assms by (simp add: switch_state_def Let_def)
next
  case Attaching
  with assms(2) obtain p' where p': "updateCurrentGameInfo (fixFigure (param w)) = Some p'" "param w' = p'"
    by (auto simp: switch_state_def Let_def)
  have "stats_inv (game_info (fixFigure (param w)))"
    using assms(1) by (simp add: fixFigure_def stats_inv_def)
  then show ?thesis using updateCurrentGameInfo_stats[OF p'(1)] p'(2) by simp
next
  case Terminate_t
  then have "param w' = (param w)\<lparr>game_info := (game_info (param w))\<lparr>pause := 2\<rparr>\<rparr>"
    using assms(2) by (auto simp: switch_state_def Let_def addHighScore_sel)
  then show ?thesis using assms(1) by (simp add: stats_inv_def)
next
  case GameOver
  then have "param w' = (param w)\<lparr>game_info := (game_info (param w))\<lparr>pause := 2\<rparr>\<rparr>"
    using assms(2) by (auto simp: switch_state_def Let_def addHighScore_sel)
  then show ?thesis using assms(1) by (simp add: stats_inv_def)
qed

lemma updateCurrentState_stats:
  assumes "stats_inv (game_info (param w))" "updateCurrentState t rnd w = Some (v, w')"
  shows "stats_inv (game_info (param w'))"
proof (cases "pause (game_info (param w)) = 1 \<or> \<not> start (param w)")
  case True
  then show ?thesis using assms by (simp add: frozen_tick)
next
  case False
  then obtain w1 where w1: "switch_state t rnd w = Some w1"
    "w' = w1\<lparr>param := snd (createGameInfo (param w1) 1)\<rparr>"
    using assms(2) by (auto simp: updateCurrentState_def Let_def split: option.splits prod.splits)
  then show ?thesis using switch_state_stats[OF assms(1) w1(1)] by (simp add: createGameInfo_sel)
qed

lemma userInput_stats:
  assumes "stats_inv (game_info (param w))" "userInput a h w = Some w'"
  shows "stats_inv (game_info (param w'))"
proof (cases h)
  case True
  with assms(2) have "w' = w \<or> (\<exists>p'. hard_drop (param w) = Some p' \<and> w' = w\<lparr>param := p'\<rparr>)"
    by (auto simp: userInput_hold split: if_splits)
  then show ?thesis using assms(1) hard_drop_game_info by auto
next
  case False
  show ?thesis
  proof (cases a)
    case Start
    then show ?thesis using assms False by (auto simp: userInput_def Let_def split: if_splits)
  next
    case Pause
    then show ?thesis using assms False
      by (auto simp: userInput_def Let_def stats_inv_def split: if_splits)
  next
    case Terminate
    then show ?thesis using assms False by (auto simp: terminate_eq stats_inv_def)
  next
    case Left
    with assms(2) False have "w' = w \<or> (\<exists>r p'. moveFigureLeft (param w) = Some (r, p') \<and> w' = w\<lparr>param := p'\<rparr>)"
      by (auto simp: userInput_def Let_def split: if_splits)
    then show ?thesis using assms(1) moves_game_info(1) by auto
  next
    case Right
    with assms(2) False have "w' = w \<or> (\<exists>r p'. moveFigureRight (param w) = Some (r, p') \<and> w' = w\<lparr>param := p'\<rparr>)"
      by (auto simp: userInput_def Let_def split: if_splits)
    then show ?thesis using assms(1) moves_game_info(2) by auto
  next
    case Up
    then show ?thesis using assms False by (simp add: userInput_def Let_def)
  next
    case Down
    then show ?thesis using assms False by (simp add: userInput_def Let_def)
  next
    case Action
    with assms(2) False have "w' = w \<or> w' = w\<lparr>param := snd (rotatePiece (param w))\<rparr>"
      by (auto simp: userInput_def Let_def split: if_splits)
    then show ?thesis using assms(1) by (auto simp: rotatePiece_game_info)
  qed
qed

lemma initGame_stats: "stats_inv (game_info (param (initGame rnd w)))"
  by (simp add: initGame_def Let_def stats_inv_def int32_def spawn_stats)

lemma run_stats:
  assumes "stats_inv (game_info (param w))" "run evs w = Some w'"
  shows "stats_inv (game_info (param w'))"
  using assms
proof (induction evs arbitrary: w)
  case Nil
  then show ?case by simp
next
  case (Cons e evs)
  then obtain w1 where w1: "step e w = Some w1" "run evs w1 = Some w'"
    by (auto split: option.splits)
  have "stats_inv (game_info (param w1))"
  proof (cases e)
    case (InitGame rnd)
    then show ?thesis using w1(1) initGame_stats by auto
  next
    case (UserInput a h)
    then show ?thesis using w1(1) userInput_stats[OF Cons.prems(1)] by auto
  next
    case (Tick t rnd)
    with w1(1) obtain v where "updateCurrentState t rnd w = Some (v, w1)" by auto
    then show ?thesis by (rule updateCurrentState_stats[OF Cons.prems(1)])
  qed
  then show ?case using Cons.IH w1(2) by blast
qed

lemma reachable_int32:
  assumes "run evs (initGame rnd (boot hs wr)) = Some w"
  shows "int32 (score (game_info (param w))) \<and> int32 (level (game_info (param w)))
       \<and> int32 (speed (game_info (param w)))"
  using run_stats[OF initGame_stats assms] by (simp add: stats_inv_def)

section \<open>Every call from a reachable state returns\<close>

lemma keeps_refl: "keeps p p"
  by (simp add: keeps_def)

lemma nonempty_copy: "nonempty (copyPieceShape s) = nonempty s"
  unfolding nonempty_def using copyPieceShape_nth[of _ _ s] by metis

lemma nonempty_rotate: "nonempty s \<Longrightarrow> nonempty (rotateShape s)"
proof -
  assume "nonempty s"
  then obtain i j where ij: "i < 4" "j < 4" "s ! i ! j \<noteq> 0" by (auto simp: nonempty_def)
  have "rotateShape s ! j ! (3 - i) = s ! i ! j"
  proof -
    have "i = 0 \<or> i = 1 \<or> i = 2 \<or> i = 3" "j = 0 \<or> j = 1 \<or> j = 2 \<or> j = 3" using ij by arith+
    then show ?thesis by (auto simp: rotateShape_eq)
  qed
  moreover have "3 - i < 4" by simp
  ultimately show ?thesis unfolding nonempty_def using ij by metis
qed

lemma nonempty_pieces: "k < 7 \<Longrightarrow> nonempty (pieces ! k)"
proof -
  assume "k < 7"
  then have "k = 0 \<or> k = 1 \<or> k = 2 \<or> k = 3 \<or> k = 4 \<or> k = 5 \<or> k = 6" by arith
  then show ?thesis by (auto simp: pieces_def nonempty_def ex_less_4)
qed

lemma moves_keep:
  "moveFigureLeft p = Some (r, p') \<Longrightarrow> keeps p p'"
  "moveFigureRight p = Some (r, p') \<Longrightarrow> keeps p p'"
  "moveFigureDown p = Some (r, p') \<Longrightarrow> keeps p p'"
  by (auto simp: moveFigureLeft_def moveFigureRight_def moveFigureDown_def Let_def keeps_def
      split: option.splits if_splits)

lemma rotatePiece_keeps: "keeps p (snd (rotatePiece p))"
  by (simp add: rotatePiece_cases keeps_def nonempty_copy rotated_piece_sel nonempty_rotate)

lemma lowered_keeps: "keeps p (lowered p n)"
  by (simp add: keeps_def lowered_def)

lemma fix_cell_wf: "wf_field f \<Longrightarrow> wf_field (fix_cell pc c f)"
proof (cases c)
  case (Pair i j)
  assume w: "wf_field f"
  have "wf_field (f[k := (f ! k)[x := v]])" if "k < 20" for k x v
    using w that by (intro wf_field_update) (simp_all add: wf_field_nth)
  then show ?thesis using w Pair by (auto simp: fix_cell_def Let_def)
qed

lemma fold_fix_cell_wf: "wf_field f \<Longrightarrow> wf_field (fold (fix_cell pc) cs f)"
  by (induction cs arbitrary: f) (simp_all add: fix_cell_wf)

lemma fixFigure_sel:
  "nextPiece (fixFigure p) = nextPiece p"
  "wf_field (field (game_info p)) \<Longrightarrow> wf_field (field (game_info (fixFigure p)))"
  by (simp_all add: fixFigure_def fold_fix_cell_wf)

lemma updateInfo_sel:
  "nextPiece (updateInfo p n) = nextPiece p" "field (game_info (updateInfo p n)) = field (game_info p)"
  by (simp_all add: updateInfo_unfold)

lemma updateCurrentGameInfo_safe:
  assumes "wf_field (field (game_info p))"
  shows "\<exists>p'. updateCurrentGameInfo p = Some p' \<and> wf_field (field (game_info p')) \<and>
           nextPiece p' = nextPiece p \<and> currentPiece p' = currentPiece p"
proof -
  from updateCurrentGameInfo_eq[OF assms] obtain f' where f': "wf_field f'"
    "updateCurrentGameInfo p =
           Some (if full_rows (field (game_info p)) \<noteq> 0
                 then updateInfo (p\<lparr>game_info := (game_info p)\<lparr>field := f'\<rparr>\<rparr>) (int (full_rows (field (game_info p))))
                 else p\<lparr>game_info := (game_info p)\<lparr>field := f'\<rparr>\<rparr>)"
    by blast
  show ?thesis
    unfolding f'(2) using f'(1) by (simp add: updateInfo_sel updateInfo_piece)
qed

lemma spawn_normal_sel:
  "field (game_info (snd (spawnNewPiece p False rnd))) = field (game_info p)"
  "shape (currentPiece (snd (spawnNewPiece p False rnd))) = copyPieceShape (shape (nextPiece p))"
  "nonempty (shape (nextPiece p)) \<Longrightarrow> nonempty (shape (nextPiece (snd (spawnNewPiece p False rnd))))"
  by (simp_all add: spawnNewPiece_def Let_def nonempty_copy nonempty_pieces)

lemma safe_inv_legal:
  "safe_inv w \<Longrightarrow> state w \<noteq> Spawn \<Longrightarrow> state w \<noteq> GameOver \<Longrightarrow> legal (param w)"
  by (simp add: safe_inv_def piece_inv_alt)

lemma safe_invI:
  assumes "piece_inv w'" "wf_field (field (game_info (param w')))"
    "nonempty (shape (nextPiece (param w')))" "state w' \<noteq> Terminate_t"
    "state w' = Moving \<or> state w' = Shifting \<or> state w' = Pause_t \<or> state w' = Attaching \<Longrightarrow>
       nonempty (shape (currentPiece (param w')))"
  shows "safe_inv w'"
  using assms by (auto simp: safe_inv_def)

lemma safe_inv_keeps:
  assumes "safe_inv w" "keeps (param w) p'" "piece_inv (w\<lparr>param := p'\<rparr>)"
  shows "safe_inv (w\<lparr>param := p'\<rparr>)"
  using assms by (auto simp: safe_inv_def keeps_def)

lemma safe_inv_keeps_state:
  assumes "safe_inv w" "keeps (param w) p'" "piece_inv (w\<lparr>param := p', state := s\<rparr>)"
    "state w = Moving \<or> state w = Shifting \<or> state w = Pause_t \<or> state w = Attaching"
    "s \<noteq> Terminate_t"
  shows "safe_inv (w\<lparr>param := p', state := s\<rparr>)"
  using assms by (auto simp: safe_inv_def keeps_def)

lemma userInput_safe:
  assumes "safe_inv w"
  shows "\<exists>w'. userInput a h w = Some w' \<and> safe_inv w'"
proof -
  have pi: "piece_inv w" using assms by (simp add: safe_inv_def)
  have *: "safe_inv w'" if "userInput a h w = Some w'" "keeps (param w) (param w')" "state w' = state w"
    for w'
  proof -
    have "piece_inv w'" using pi that(1) by (rule userInput_inv)
    then show ?thesis using assms that(2,3) by (auto simp: safe_inv_def keeps_def)
  qed
  show ?thesis
  proof (cases "state w = Moving \<and> pause (game_info (param w)) = 0")
    case m: True
    then have l: "legal (param w)" using assms by (simp add: safe_inv_legal)
    have ne: "\<exists>i<4. \<exists>j<4. shape (currentPiece (param w)) ! i ! j \<noteq> 0"
      using assms m by (simp add: safe_inv_def nonempty_def)
    show ?thesis
    proof (cases h)
      case True
      from hard_drop_lowers[OF l ne] obtain n where "hard_drop (param w) = Some (lowered (param w) n)"
        by blast
      then have u: "userInput a h w = Some (w\<lparr>param := lowered (param w) n\<rparr>)"
        using True m by (simp add: userInput_hold)
      then show ?thesis using *[OF u] by (simp add: lowered_keeps)
    next
      case False
      show ?thesis
      proof (cases a)
        case Start
        then show ?thesis using assms False m by (simp add: userInput_def Let_def)
      next
        case Pause
        then have u: "userInput a h w =
            Some (w\<lparr>state := Pause_t, param := (param w)\<lparr>game_info := (game_info (param w))\<lparr>pause := 1\<rparr>\<rparr>\<rparr>)"
          using False m by (simp add: userInput_def Let_def)
        have "piece_inv (w\<lparr>state := Pause_t, param := (param w)\<lparr>game_info := (game_info (param w))\<lparr>pause := 1\<rparr>\<rparr>\<rparr>)"
          using pi u by (rule userInput_inv)
        then show ?thesis using assms m u by (auto simp: safe_inv_def)
      next
        case Terminate
        have u: "userInput a h w = Some (w\<lparr>highscore_txt :=
               (if score (game_info (param w)) > high_score (game_info (param w)) \<and>
                   score (game_info (param w)) > getHighScore w \<and> writable w
                then Some (score (game_info (param w))) else highscore_txt w),
            param := (param w)\<lparr>game_info := (game_info (param w))
                       \<lparr>pause := (if pause (game_info (param w)) = 1 then 2 else pause (game_info (param w)))\<rparr>\<rparr>,
            state := GameOver\<rparr>)" (is "_ = Some ?w'")
          using Terminate False by (simp add: terminate_eq)
        have "piece_inv ?w'" using pi u by (rule userInput_inv)
        then show ?thesis using assms u by (auto simp: safe_inv_def)
      next
        case Left
        from moveFigureLeft_defined[of "param w"] l obtain r p' where mv: "moveFigureLeft (param w) = Some (r, p')"
          by (auto simp: canPlacePiece_legal')
        then have u: "userInput a h w = Some (w\<lparr>param := p'\<rparr>)"
          using Left False m by (simp add: userInput_def Let_def)
        show ?thesis using *[OF u] moves_keep(1)[OF mv] u by simp
      next
        case Right
        from moveFigureRight_defined[of "param w"] l obtain r p' where mv: "moveFigureRight (param w) = Some (r, p')"
          by (auto simp: canPlacePiece_legal')
        then have u: "userInput a h w = Some (w\<lparr>param := p'\<rparr>)"
          using Right False m by (simp add: userInput_def Let_def)
        show ?thesis using *[OF u] moves_keep(2)[OF mv] u by simp
      next
        case Up
        then show ?thesis using assms False by (simp add: userInput_def Let_def)
      next
        case Down
        then show ?thesis using assms False by (simp add: userInput_def Let_def)
      next
        case Action
        then have u: "userInput a h w = Some (w\<lparr>param := snd (rotatePiece (param w))\<rparr>)"
          using False m by (simp add: userInput_def Let_def)
        show ?thesis using *[OF u] rotatePiece_keeps u by simp
      qed
    qed
  next
    case nm: False
    show ?thesis
    proof (cases h)
      case True
      then show ?thesis using assms nm by (auto simp: userInput_hold)
    next
      case False
      show ?thesis
      proof (cases a)
        case Start
        then have "userInput a h w = Some w \<or>
           userInput a h w = Some (w\<lparr>param := (param w)\<lparr>start := True\<rparr>, state := Spawn\<rparr>)"
          using False by (simp add: userInput_def Let_def)
        moreover have "safe_inv (w\<lparr>param := (param w)\<lparr>start := True\<rparr>, state := Spawn\<rparr>)"
          using assms by (auto simp: safe_inv_def piece_inv_def)
        ultimately show ?thesis using assms by auto
      next
        case Pause
        show ?thesis
        proof (cases "state w = Pause_t")
          case True
          then have u: "userInput a h w =
             Some (w\<lparr>state := Moving, param := (param w)\<lparr>game_info := (game_info (param w))\<lparr>pause := 0\<rparr>\<rparr>\<rparr>)"
            using Pause False by (simp add: userInput_def Let_def)
          have "piece_inv (w\<lparr>state := Moving, param := (param w)\<lparr>game_info := (game_info (param w))\<lparr>pause := 0\<rparr>\<rparr>\<rparr>)"
            using pi u by (rule userInput_inv)
          then show ?thesis using assms True u by (auto simp: safe_inv_def)
        next
          case np: False
          show ?thesis
          proof (cases "state w = Moving")
            case True
            then have u: "userInput a h w =
               Some (w\<lparr>state := Pause_t, param := (param w)\<lparr>game_info := (game_info (param w))\<lparr>pause := 1\<rparr>\<rparr>\<rparr>)"
              using Pause False by (simp add: userInput_def Let_def)
            have "piece_inv (w\<lparr>state := Pause_t, param := (param w)\<lparr>game_info := (game_info (param w))\<lparr>pause := 1\<rparr>\<rparr>\<rparr>)"
              using pi u by (rule userInput_inv)
            then show ?thesis using assms True u by (auto simp: safe_inv_def)
          next
            case False2: False
            then show ?thesis using assms Pause False np by (simp add: userInput_def Let_def)
          qed
        qed
      next
        case Terminate
        have u: "userInput a h w = Some (w\<lparr>highscore_txt :=
               (if score (game_info (param w)) > high_score (game_info (param w)) \<and>
                   score (game_info (param w)) > getHighScore w \<and> writable w
                then Some (score (game_info (param w))) else highscore_txt w),
            param := (param w)\<lparr>game_info := (game_info (param w))
                       \<lparr>pause := (if pause (game_info (param w)) = 1 then 2 else pause (game_info (param w)))\<rparr>\<rparr>,
            state := GameOver\<rparr>)" (is "_ = Some ?w'")
          using Terminate False by (simp add: terminate_eq)
        have "piece_inv ?w'" using pi u by (rule userInput_inv)
        then show ?thesis using assms u by (auto simp: safe_inv_def)
      next
        case Left
        then show ?thesis using assms False nm by (auto simp: userInput_def Let_def)
      next
        case Right
        then show ?thesis using assms False nm by (auto simp: userInput_def Let_def)
      next
        case Up
        then show ?thesis using assms False by (simp add: userInput_def Let_def)
      next
        case Down
        then show ?thesis using assms False by (simp add: userInput_def Let_def)
      next
        case Action
        then show ?thesis using assms False nm by (auto simp: userInput_def Let_def)
      qed
    qed
  qed
qed

lemma createGameInfo_next: "nextPiece (snd (createGameInfo p rc)) = nextPiece p"
  by (simp add: createGameInfo_def Let_def overlayCurrentPiece_def)

lemma getTime_next: "nextPiece (snd (getTime p t)) = nextPiece p"
  by (simp add: getTime_def Let_def)

lemma switch_state_safe:
  assumes "safe_inv w"
  shows "\<exists>w'. switch_state t rnd w = Some w' \<and> safe_inv w'"
proof -
  have pi: "piece_inv w" using assms by (simp add: safe_inv_def)
  have *: "safe_inv w'" if "switch_state t rnd w = Some w'"
    "wf_field (field (game_info (param w')))" "nonempty (shape (nextPiece (param w')))"
    "state w' \<noteq> Terminate_t"
    "state w' = Moving \<or> state w' = Shifting \<or> state w' = Pause_t \<or> state w' = Attaching \<Longrightarrow>
       nonempty (shape (currentPiece (param w')))" for w'
    using switch_state_inv[OF pi that(1)] that(2-5) by (rule safe_invI)
  show ?thesis
  proof (cases "state w")
    case Start_t
    then show ?thesis using assms by (auto simp: switch_state_def Let_def safe_inv_def piece_inv_def)
  next
    case Spawn
    let ?sp = "spawnNewPiece (param w) False rnd"
    have u: "switch_state t rnd w =
        Some (w\<lparr>param := snd ?sp, state := (if fst ?sp \<noteq> 0 then Moving else GameOver)\<rparr>)"
      using Spawn by (simp add: switch_state_def Let_def split: prod.splits)
    have ne: "nonempty (shape (nextPiece (param w)))" using assms by (simp add: safe_inv_def)
    have "safe_inv (w\<lparr>param := snd ?sp, state := (if fst ?sp \<noteq> 0 then Moving else GameOver)\<rparr>)"
      by (rule *[OF u]) (use assms ne in \<open>simp_all add: spawn_normal_sel nonempty_copy safe_inv_def\<close>)
    with u show ?thesis by blast
  next
    case Moving
    let ?g = "getTime (param w) t"
    have u: "switch_state t rnd w =
        Some (if fst ?g \<noteq> 0 then w\<lparr>param := snd ?g, state := Shifting\<rparr> else w\<lparr>param := snd ?g\<rparr>)"
      using Moving by (simp add: switch_state_def Let_def split: prod.splits)
    have "safe_inv (if fst ?g \<noteq> 0 then w\<lparr>param := snd ?g, state := Shifting\<rparr> else w\<lparr>param := snd ?g\<rparr>)"
      by (rule *[OF u]) (use assms Moving in \<open>simp_all add: getTime_sel getTime_next safe_inv_def\<close>)
    with u show ?thesis by blast
  next
    case Shifting
    then have l: "legal (param w)" using assms by (simp add: safe_inv_legal)
    from moveFigureDown_defined[of "param w"] l obtain r p' where mv: "moveFigureDown (param w) = Some (r, p')"
      by (auto simp: canPlacePiece_legal')
    then have u: "switch_state t rnd w =
        Some (w\<lparr>param := p', state := (if r = 0 then Attaching else Moving)\<rparr>)"
      using Shifting by (simp add: switch_state_def Let_def)
    have "safe_inv (w\<lparr>param := p', state := (if r = 0 then Attaching else Moving)\<rparr>)"
      by (rule *[OF u]) (use assms Shifting moves_keep(3)[OF mv] in \<open>simp_all add: safe_inv_def keeps_def\<close>)
    with u show ?thesis by blast
  next
    case Pause_t
    then show ?thesis using assms by (simp add: switch_state_def Let_def)
  next
    case Attaching
    have "wf_field (field (game_info (fixFigure (param w))))"
      using assms by (simp add: fixFigure_sel safe_inv_def)
    from updateCurrentGameInfo_safe[OF this] obtain p' where p':
      "updateCurrentGameInfo (fixFigure (param w)) = Some p'" "wf_field (field (game_info p'))"
      "nextPiece p' = nextPiece (param w)"
      by (auto simp: fixFigure_sel)
    then have u: "switch_state t rnd w = Some (w\<lparr>param := p', state := Spawn\<rparr>)"
      using Attaching by (simp add: switch_state_def Let_def)
    have "safe_inv (w\<lparr>param := p', state := Spawn\<rparr>)"
      by (rule *[OF u]) (use assms p'(2,3) in \<open>simp_all add: safe_inv_def\<close>)
    with u show ?thesis by blast
  next
    case Terminate_t
    then show ?thesis using assms by (simp add: safe_inv_def)
  next
    case GameOver
    have u: "switch_state t rnd w =
       Some (snd (addHighScore (score (game_info (param w)))
                    (w\<lparr>param := (param w)\<lparr>game_info := (game_info (param w))\<lparr>pause := 2\<rparr>\<rparr>\<rparr>)))"
      using GameOver by (simp add: switch_state_def Let_def)
    have "safe_inv (snd (addHighScore (score (game_info (param w)))
                    (w\<lparr>param := (param w)\<lparr>game_info := (game_info (param w))\<lparr>pause := 2\<rparr>\<rparr>\<rparr>)))"
      by (rule *[OF u]) (use assms GameOver in \<open>simp_all add: addHighScore_sel safe_inv_def\<close>)
    with u show ?thesis by blast
  qed
qed

lemma updateCurrentState_safe:
  assumes "safe_inv w"
  shows "\<exists>v w'. updateCurrentState t rnd w = Some (v, w') \<and> safe_inv w'"
proof (cases "pause (game_info (param w)) = 1 \<or> \<not> start (param w)")
  case True
  then show ?thesis using assms by (simp add: frozen_tick)
next
  case False
  from switch_state_safe[OF assms] obtain w1 where w1: "switch_state t rnd w = Some w1" "safe_inv w1"
    by blast
  let ?w' = "w1\<lparr>param := snd (createGameInfo (param w1) 1)\<rparr>"
  have u: "updateCurrentState t rnd w = Some (fst (createGameInfo (param w1) 1), ?w')"
    using False w1(1) by (simp add: updateCurrentState_def Let_def split: prod.splits)
  have "piece_inv ?w'"
    using assms u by (intro updateCurrentState_inv[OF _ u]) (simp add: safe_inv_def)
  then have "safe_inv ?w'"
    using w1(2) by (simp add: safe_inv_def createGameInfo_sel createGameInfo_next)
  with u show ?thesis by blast
qed

lemma initGame_safe:
  assumes "in_bounds (currentPiece (param w))"
  shows "safe_inv (initGame rnd w)"
proof -
  have "wf_field (initMatrix 20 10)" by (simp add: wf_field_def initMatrix_def)
  moreover have "nonempty (shape (nextPiece (param (initGame rnd w))))"
    by (simp add: initGame_def Let_def spawnNewPiece_def nonempty_copy nonempty_pieces)
  ultimately show ?thesis
    using initGame_inv[OF assms, of rnd] by (simp add: safe_inv_def initGame_sel)
qed

lemma step_safe:
  assumes "safe_inv w"
  shows "\<exists>w'. step e w = Some w' \<and> safe_inv w'"
proof (cases e)
  case (InitGame rnd)
  have "in_bounds (currentPiece (param w))" using assms by (simp add: safe_inv_def piece_inv_def)
  then show ?thesis using InitGame initGame_safe by simp
next
  case (UserInput a h)
  then show ?thesis using userInput_safe[OF assms] by simp
next
  case (Tick t rnd)
  then show ?thesis using updateCurrentState_safe[OF assms, of t rnd] by auto
qed

lemma run_safe:
  assumes "safe_inv w"
  shows "\<exists>w'. run evs w = Some w' \<and> safe_inv w'"
  using assms
proof (induction evs arbitrary: w)
  case Nil
  then show ?case by simp
next
  case (Cons e evs)
  from step_safe[OF Cons.prems] obtain w1 where "step e w = Some w1" "safe_inv w1" by blast
  then show ?case using Cons.IH[of w1] by simp
qed

lemma every_call_returns:
  "\<exists>w. run evs (initGame rnd (boot hs wr)) = Some w \<and> wf_field (field (game_info (param w)))"
  using run_safe[OF initGame_safe[OF boot_in_bounds], of evs rnd hs wr] by (auto simp: safe_inv_def)

section \<open>The placement invariant\<close>

text \<open>
  Claim C1, as the code has it. After \<^verbatim>\<open>initGame\<close>, every sequence of
  \<^verbatim>\<open>initGame\<close>, \<^verbatim>\<open>userInput\<close> and \<^verbatim>\<open>updateCurrentState\<close> calls returns, and in the
  state it reaches every occupied cell of the current piece lies within
  \<open>[0,10) x [0,20)\<close>; and
  unless the state machine is in \<open>Spawn\<close> or \<open>GameOver\<close>, no occupied cell lies on a
  non-zero field cell. The states after a successful move, rotation or spawn
  are \<open>Moving\<close> states, so the property holds there.
\<close>

theorem reachable_piece_invariant:
  "\<exists>w. run evs (initGame rnd (boot hs wr)) = Some w \<and>
     in_bounds (currentPiece (param w)) \<and>
     (state w \<noteq> Spawn \<and> state w \<noteq> GameOver \<longrightarrow>
        placed_legally (field (game_info (param w))) (currentPiece (param w)))"
proof -
  from run_safe[OF initGame_safe[OF boot_in_bounds]]
  obtain w where "run evs (initGame rnd (boot hs wr)) = Some w" "safe_inv w" by blast
  then show ?thesis by (auto simp: safe_inv_def piece_inv_def)
qed

lemma reach_W_moving:
  "run [UserInput Start False, Tick (0, 0) 1] (initGame 2 (boot None True)) = Some W_moving"
  by code_simp

theorem reachable_piece_invariant_witness:
  "run [UserInput Start False, Tick (0, 0) 1] (initGame 2 (boot None True)) = Some W_moving
   \<and> state W_moving \<noteq> Spawn \<and> state W_moving \<noteq> GameOver
   \<and> in_bounds (currentPiece (param W_moving))
   \<and> placed_legally (field (game_info (param W_moving))) (currentPiece (param W_moving))"
  using reachable_piece_invariant[of "[UserInput Start False, Tick (0, 0) 1]" 2 None True] reach_W_moving
  by (simp add: W_moving_def)

lemma reach_W_fixed:
  "run [UserInput Start False, Tick (0, 0) 1, UserInput Down True, Tick (1, 0) 0, Tick (1, 0) 0, Tick (1, 0) 0]
       (initGame 2 (boot None True)) = Some W_fixed"
  by code_simp

lemma W_fixed_cell:
  "shape (currentPiece (param W_fixed)) ! 1 ! 1 \<noteq> 0"
  "posY (currentPiece (param W_fixed)) = 18" "posX (currentPiece (param W_fixed)) = 3"
  "field (game_info (param W_fixed)) ! 19 ! 4 \<noteq> 0"
  by code_simp+

text \<open>
  A run: Start, the tick that spawns the T-piece, a hard drop, and the three
  ticks \<open>Moving\<close>, \<open>Shifting\<close>, \<open>Attaching\<close>. The last one fixes the piece into the
  field and leaves the state \<open>Spawn\<close>, in which the cell of the current piece at
  row 19, column 4 lies on a non-zero field cell.
\<close>

theorem fixed_piece_overlaps_field:
  "run [UserInput Start False, Tick (0, 0) 1, UserInput Down True, Tick (1, 0) 0, Tick (1, 0) 0, Tick (1, 0) 0]
       (initGame 2 (boot None True)) = Some W_fixed
   \<and> shape (currentPiece (param W_fixed)) ! 1 ! 1 \<noteq> 0
   \<and> field (game_info (param W_fixed)) !
         nat (posY (currentPiece (param W_fixed)) + 1) ! nat (posX (currentPiece (param W_fixed)) + 1) \<noteq> 0
   \<and> \<not> placed_legally (field (game_info (param W_fixed))) (currentPiece (param W_fixed))"
proof -
  have c: "field (game_info (param W_fixed)) !
         nat (posY (currentPiece (param W_fixed)) + 1) ! nat (posX (currentPiece (param W_fixed)) + 1) \<noteq> 0"
    using W_fixed_cell(4) by (simp add: W_fixed_cell(2,3))
  have "\<not> placed_legally (field (game_info (param W_fixed))) (currentPiece (param W_fixed))"
  proof
    assume "placed_legally (field (game_info (param W_fixed))) (currentPiece (param W_fixed))"
    then have "shape (currentPiece (param W_fixed)) ! 1 ! 1 \<noteq> 0 \<longrightarrow>
       field (game_info (param W_fixed)) !
         nat (posY (currentPiece (param W_fixed)) + int 1) ! nat (posX (currentPiece (param W_fixed)) + int 1) = 0"
      unfolding placed_legally_def by (simp add: all_less_4)
    with W_fixed_cell(1) c show False by simp
  qed
  with reach_W_fixed W_fixed_cell(1) c show ?thesis by simp
qed

end
